theory Spec2Isabelle
  imports Main "HOL-Library.Word"
begin

section \<open>Data model of the block manager\<close>

text \<open>
  The block manager of \<^verbatim>\<open>blockmanager.go\<close> works on values of the packages btcwire, btcchain,
  btcdb and btcutil. Their types are modelled by what the manager reads of them:
  a \<^verbatim>\<open>ShaHash\<close> is a 32-byte array, a block locator a slice of hashes, an inventory vector a
  type tag (a \<^verbatim>\<open>uint32\<close>) with a hash.
\<close>

type_synonym ShaHash = "256 word"

definition zeroHash :: ShaHash where
  "zeroHash = 0"

type_synonym BlockLocator = "ShaHash list"

text \<open>
  A block as the manager sees it: \<^verbatim>\<open>block.Sha()\<close> (btcutil caches the hash and its error
  result is always nil) and the transactions of \<^verbatim>\<open>block.MsgBlock()\<close>, of which only the
  number is read.
\<close>

record Block =
  Sha :: ShaHash
  Transactions :: "nat list"

text \<open>
  A notification of the chain engine: its type and its data, an \<^verbatim>\<open>interface{}\<close> that holds
  a hash, a block or something else.
\<close>

datatype NotificationType = NTOrphanBlock | NTBlockAccepted | NTBlockConnected | NTBlockDisconnected

datatype NotificationData = Data_ShaHash ShaHash | Data_Block Block | Data_other

record Notification =
  Type :: NotificationType
  Data :: NotificationData

type_synonym InvType = "32 word"

definition InvVect_Block :: InvType where
  \<comment> \<open>btcwire's tag of a block inventory vector\<close>
  "InvVect_Block = 2"

record InvVect =
  Type :: InvType
  Hash :: ShaHash

text \<open>The messages the manager sends to a peer.\<close>

datatype wire_msg =
    is_MsgGetBlocks: MsgGetBlocks BlockLocator ShaHash
  | is_MsgGetData: MsgGetData "InvVect list"

text \<open>
  A \<^verbatim>\<open>*peer\<close> is a reference into a heap of peer objects; two references are equal when
  they point to the same object, as Go's \<^verbatim>\<open>==\<close> on pointers is. Of the peer object the
  manager reads \<^verbatim>\<open>lastBlock\<close> (an \<^verbatim>\<open>int32\<close>) and \<^verbatim>\<open>services\<close>, and it owns
  the request queue. The remaining fields record what the manager did to the peer:
  the inventory passed to \<^verbatim>\<open>addKnownInventory\<close>, the messages handed to
  \<^verbatim>\<open>PushGetBlocksMsg\<close> and \<^verbatim>\<open>QueueMessage\<close>, and the values sent on the channel
  \<^verbatim>\<open>blockProcessed\<close>, each in the order of the calls.
\<close>

type_synonym peer_ref = nat

record peer =
  lastBlock :: "32 word"
  services :: "64 word"
  requestQueue :: "InvVect list"
  knownInventory :: "InvVect list"
  outbound :: "wire_msg list"
  blockProcessed :: "bool list"

record blockMsg =
  block :: Block
  peer :: peer_ref

record invMsg =
  inv :: "InvVect list"
  peer :: peer_ref

text \<open>
  The chain engine and the block store are outside the manager. A value of \<open>chain\<close> holds
  the answers they give to the manager's queries in their current state; the queries
  that can fail answer \<open>None\<close> for a non-nil error. \<^verbatim>\<open>ProcessBlock\<close>, the only call that
  changes the engine, is a parameter of the handler that calls it: it maps a block and
  the current answers to the error flag and the answers afterwards.
\<close>

record chain =
  HaveInventory :: "InvVect \<Rightarrow> bool"
  IsKnownOrphan :: "ShaHash \<Rightarrow> bool"
  GetOrphanRoot :: "ShaHash \<Rightarrow> ShaHash"
  LatestBlockLocator :: "BlockLocator option"
  BlockLocatorFromHash :: "ShaHash \<Rightarrow> BlockLocator"
  NewestSha :: "(ShaHash \<times> 64 word) option"

type_synonym ProcessBlock = "Block \<Rightarrow> chain \<Rightarrow> bool \<times> chain"

text \<open>The lines written to the log, one constructor for each logging call of the file.\<close>

datatype log_entry =
    Error_NewestSha
  | Error_LatestBlockLocator
  | Error_PeerLatestBlockLocator
  | Info_Syncing "32 word" peer_ref
  | Warn_ProcessBlock ShaHash
  | Warn_LatestSha
  | Info_Processed "64 word" string "64 word" string int "64 word"
  | Warn_OrphanNoPeer ShaHash
  | Warn_NotABlock
  | Warn_AlreadyShuttingDown
  | Info_ShuttingDown
  | Trace_Starting
  | Trace_BlockHandlerDone

text \<open>The run-time panics the manager's code can raise, and Go's \<^verbatim>\<open>error\<close>.\<close>

datatype panic = close_of_closed_channel | negative_WaitGroup_counter | interface_conversion

datatype go_error = go_error string

datatype task = go_syncHandler | go_blockHandler | go_chainNotificationHandler

text \<open>
  The fields of \<^verbatim>\<open>blockManager\<close>. The channels \<^verbatim>\<open>blockQueue\<close> and \<^verbatim>\<open>invQueue\<close> are the
  lists of the messages they hold, oldest first; \<^verbatim>\<open>quit\<close> is the flag whether it has been
  closed; the wait group is its counter. Times are nanoseconds.
\<close>

record blockManager =
  started :: bool
  shutdown :: bool
  blockChain :: chain
  blockPeer :: "ShaHash \<rightharpoonup> peer_ref"
  receivedLogBlocks :: "64 word"
  receivedLogTx :: "64 word"
  lastBlockLogTime :: int
  syncPeer :: "peer_ref option"
  blockQueue :: "blockMsg list"
  invQueue :: "invMsg list"
  wg :: nat
  quit :: bool

text \<open>
  The manager together with what it acts on: the heap of peer objects, the log, the
  goroutines launched so far, the number of \<^verbatim>\<open>db.Sync()\<close> calls and of completed
  \<^verbatim>\<open>wg.Wait()\<close> calls, and the inventory handed to the server for relay.
\<close>

record world = blockManager +
  peers :: "peer_ref \<Rightarrow> peer"
  logged :: "log_entry list"
  launched :: "task list"
  dbSyncs :: nat
  waits :: nat
  relayed :: "InvVect list"

section \<open>The block ingest pipeline\<close>

definition second :: int where
  "second = 1000000000"

definition logBlockHeight :: "int \<Rightarrow> 64 word \<Rightarrow> 64 word \<Rightarrow> world \<Rightarrow> world" where
  "logBlockHeight now numTx height w =
    (let w1 = w\<lparr>receivedLogBlocks := receivedLogBlocks w + 1,
                receivedLogTx := receivedLogTx w + numTx\<rparr>;
         duration = now - lastBlockLogTime w1
     in if duration < second * 10 then w1
        else
          let blockStr = (if receivedLogBlocks w1 = 1 then ''block'' else ''blocks'');
              txStr = (if receivedLogTx w1 = 1 then ''transaction'' else ''transactions'')
          in w1\<lparr>logged := logged w1 @
                   [Info_Processed (receivedLogBlocks w1) blockStr (receivedLogTx w1) txStr
                      duration height],
                 receivedLogBlocks := 0,
                 receivedLogTx := 0,
                 lastBlockLogTime := now\<rparr>)"

definition handleBlockMsg :: "ProcessBlock \<Rightarrow> int \<Rightarrow> blockMsg \<Rightarrow> world \<Rightarrow> world" where
  "handleBlockMsg processBlock now bmsg w =
    (let blockSha = Sha (block bmsg);
         w1 = w\<lparr>blockPeer := (blockPeer w)(blockSha \<mapsto> blockMsg.peer bmsg)\<rparr>;
         (err, c) = processBlock (block bmsg) (blockChain w1);
         w2 = w1\<lparr>blockChain := c\<rparr>
     in if err then
          w2\<lparr>blockPeer := (blockPeer w2)(blockSha := None),
             logged := logged w2 @ [Warn_ProcessBlock blockSha]\<rparr>
        else
          let w3 = (if \<not> IsKnownOrphan (blockChain w2) blockSha
                    then w2\<lparr>blockPeer := (blockPeer w2)(blockSha := None)\<rparr>
                    else w2)
          in case NewestSha (blockChain w3) of
               None \<Rightarrow> w3\<lparr>logged := logged w3 @ [Warn_LatestSha]\<rparr>
             | Some (_, height) \<Rightarrow>
                 (let w4 = logBlockHeight now
                             (of_nat (length (Transactions (block bmsg)))) height w3
                  in w4\<lparr>dbSyncs := dbSyncs w4 + 1\<rparr>))"

section \<open>Calls on a peer\<close>

text \<open>
  Modelled from the spec: the methods of \<^verbatim>\<open>peer\<close> are not in \<^verbatim>\<open>blockmanager.go\<close>. The
  spec lists them as the interface of the peer session: \<^verbatim>\<open>pushGetBlocksMessage(locator,
  stopHash)\<close>, \<^verbatim>\<open>queueMessage(msg)\<close>, \<^verbatim>\<open>addKnownInventory(invVector)\<close> and a completion
  signal channel. Each call is recorded on the peer object it is made on, after the
  earlier ones.
\<close>

definition PushGetBlocksMsg :: "peer_ref \<Rightarrow> BlockLocator \<Rightarrow> ShaHash \<Rightarrow> world \<Rightarrow> world" where
  "PushGetBlocksMsg p locator stopHash w =
     w\<lparr>peers := (peers w)
          (p := (peers w p)\<lparr>outbound := outbound (peers w p) @ [MsgGetBlocks locator stopHash]\<rparr>)\<rparr>"

definition QueueMessage :: "peer_ref \<Rightarrow> wire_msg \<Rightarrow> world \<Rightarrow> world" where
  "QueueMessage p msg w =
     w\<lparr>peers := (peers w)(p := (peers w p)\<lparr>outbound := outbound (peers w p) @ [msg]\<rparr>)\<rparr>"

definition addKnownInventory :: "peer_ref \<Rightarrow> InvVect \<Rightarrow> world \<Rightarrow> world" where
  "addKnownInventory p iv w =
     w\<lparr>peers := (peers w)
          (p := (peers w p)\<lparr>knownInventory := knownInventory (peers w p) @ [iv]\<rparr>)\<rparr>"

definition send_blockProcessed :: "peer_ref \<Rightarrow> bool \<Rightarrow> world \<Rightarrow> world" where
  "send_blockProcessed p v w =
     w\<lparr>peers := (peers w)
          (p := (peers w p)\<lparr>blockProcessed := blockProcessed (peers w p) @ [v]\<rparr>)\<rparr>"

section \<open>Lists of package container/list\<close>

text \<open>
  The candidate peers are kept in a \<^verbatim>\<open>list.List\<close>, and the loops of the sync coordinator
  hold an element of it while they change the list. The package is modelled as it is
  written in the current Go releases: a list is a ring of elements through the sentinel
  \<^verbatim>\<open>l.root\<close>, here the element at address 0 of a heap of elements; \<^verbatim>\<open>e.list\<close> is nil
  or the one list, here a flag.
  \<^item> \<^verbatim>\<open>Front\<close>: nil when \<^verbatim>\<open>l.len == 0\<close>, else \<^verbatim>\<open>l.root.next\<close>.
  \<^item> \<^verbatim>\<open>Next\<close>: \<^verbatim>\<open>e.next\<close> when \<^verbatim>\<open>e.list != nil\<close> and \<^verbatim>\<open>e.next\<close> is not the sentinel,
    else nil.
  \<^item> \<^verbatim>\<open>Remove\<close>: when \<^verbatim>\<open>e.list == l\<close>, the statements of \<^verbatim>\<open>remove\<close>:
    \<^verbatim>\<open>e.prev.next = e.next; e.next.prev = e.prev; e.next = nil; e.prev = nil;
    e.list = nil; l.len--\<close>.
  \<^item> \<^verbatim>\<open>PushBack\<close>: \<^verbatim>\<open>insert\<close> of a new element after \<^verbatim>\<open>l.root.prev\<close>:
    \<^verbatim>\<open>e.prev = at; e.next = at.next; e.prev.next = e; e.next.prev = e; e.list = l;
    l.len++\<close>.
  A dereference of nil has the result \<open>None\<close>.
\<close>

type_synonym elem_ref = nat

record Element =
  nxt :: "elem_ref option"
  prv :: "elem_ref option"
  inList :: bool
  Value :: peer_ref

record List =
  cells :: "elem_ref \<Rightarrow> Element"
  len :: int
  unused :: elem_ref

definition New :: List where
  "New = \<lparr>cells = (\<lambda>r. \<lparr>nxt = Some 0, prv = Some 0, inList = False, Value = 0\<rparr>),
     len = 0, unused = 1\<rparr>"

definition Front :: "List \<Rightarrow> elem_ref option" where
  "Front l = (if len l = 0 then None else nxt (cells l 0))"

definition Next :: "List \<Rightarrow> elem_ref \<Rightarrow> elem_ref option" where
  "Next l e = (if inList (cells l e) \<and> nxt (cells l e) \<noteq> Some 0 then nxt (cells l e) else None)"

definition Remove :: "List \<Rightarrow> elem_ref \<Rightarrow> List option" where
  "Remove l e =
    (if inList (cells l e) then
       (case prv (cells l e) of
          None \<Rightarrow> None
        | Some a \<Rightarrow>
            (let c1 = (cells l)(a := (cells l a)\<lparr>nxt := nxt (cells l e)\<rparr>)
             in case nxt (c1 e) of
                  None \<Rightarrow> None
                | Some n \<Rightarrow>
                    (let c2 = c1(n := (c1 n)\<lparr>prv := prv (c1 e)\<rparr>);
                         c3 = c2(e := (c2 e)\<lparr>nxt := None, prv := None, inList := False\<rparr>)
                     in Some (l\<lparr>cells := c3, len := len l - 1\<rparr>))))
     else Some l)"

definition PushBack :: "List \<Rightarrow> peer_ref \<Rightarrow> List option" where
  "PushBack l v =
    (case prv (cells l 0) of
       None \<Rightarrow> None
     | Some at \<Rightarrow>
         (let e = unused l;
              c1 = (cells l)(e := \<lparr>nxt = nxt (cells l at), prv = Some at, inList = False, Value = v\<rparr>);
              c2 = c1(at := (c1 at)\<lparr>nxt := Some e\<rparr>)
          in case nxt (c2 e) of
               None \<Rightarrow> None
             | Some n \<Rightarrow>
                 (let c3 = c2(n := (c2 n)\<lparr>prv := Some e\<rparr>);
                      c4 = c3(e := (c3 e)\<lparr>inList := True\<rparr>)
                  in Some (l\<lparr>cells := c4, len := len l + 1, unused := unused l + 1\<rparr>))))"

fun List_walk :: "nat \<Rightarrow> List \<Rightarrow> elem_ref option \<Rightarrow> peer_ref list" where
  "List_walk 0 l e = []"
| "List_walk (Suc k) l None = []"
| "List_walk (Suc k) l (Some e) = Value (cells l e) # List_walk k l (Next l e)"

definition List_values :: "List \<Rightarrow> peer_ref list" where
  "List_values l = List_walk (nat (len l)) l (Front l)"

fun PushBack_all :: "List \<Rightarrow> peer_ref list \<Rightarrow> List option" where
  "PushBack_all l [] = Some l"
| "PushBack_all l (v # vs) =
     (case PushBack l v of None \<Rightarrow> None | Some l' \<Rightarrow> PushBack_all l' vs)"

text \<open>
  \<open>List_values\<close> reads a list front to back, \<open>PushBack_all\<close> appends values in turn.
  The invariant of a list with the elements \<open>es\<close>, front to back: the ring through the
  sentinel, and the cells \<^verbatim>\<open>Remove\<close> and \<^verbatim>\<open>PushBack\<close> leave behind.
\<close>

fun linked :: "(elem_ref \<Rightarrow> Element) \<Rightarrow> elem_ref \<Rightarrow> elem_ref list \<Rightarrow> elem_ref \<Rightarrow> bool" where
  "linked c a [] b = (nxt (c a) = Some b \<and> prv (c b) = Some a)"
| "linked c a (e # es) b = (nxt (c a) = Some e \<and> prv (c e) = Some a \<and> linked c e es b)"

definition ring :: "List \<Rightarrow> elem_ref list \<Rightarrow> bool" where
  "ring l es =
     (linked (cells l) 0 es 0 \<and> distinct es \<and> 0 \<notin> set es
      \<and> list_all (\<lambda>e. inList (cells l e) \<and> e < unused l) es \<and> 0 < unused l
      \<and> len l = int (length es))"

definition vals :: "List \<Rightarrow> elem_ref list \<Rightarrow> peer_ref list" where
  "vals l es = map (\<lambda>e. Value (cells l e)) es"

definition unlink ::
  "(elem_ref \<Rightarrow> Element) \<Rightarrow> elem_ref \<Rightarrow> elem_ref \<Rightarrow> elem_ref \<Rightarrow> elem_ref \<Rightarrow> Element" where
  "unlink c e a n x =
     (if x = e then (c e)\<lparr>nxt := None, prv := None, inList := False\<rparr>
      else (c x)\<lparr>nxt := (if x = a then Some n else nxt (c x)),
                 prv := (if x = n then Some a else prv (c x))\<rparr>)"

definition link ::
  "(elem_ref \<Rightarrow> Element) \<Rightarrow> elem_ref \<Rightarrow> elem_ref \<Rightarrow> elem_ref \<Rightarrow> peer_ref \<Rightarrow> elem_ref \<Rightarrow> Element" where
  "link c e a t v x =
     (if x = e then \<lparr>nxt = Some t, prv = Some a, inList = True, Value = v\<rparr>
      else (c x)\<lparr>nxt := (if x = a then Some e else nxt (c x)),
                 prv := (if x = t then Some e else prv (c x))\<rparr>)"

section \<open>The sync coordinator\<close>

text \<open>
  The candidate peers are a \<^verbatim>\<open>list.List\<close> of peer references, local to the sync handler
  and passed to its three functions. The functions are modelled on the values of the
  list, front to back, and return them together with the world. The loop of
  \<^verbatim>\<open>startSync\<close> walks the list with \<^verbatim>\<open>for e := peers.Front(); e != nil; e = e.Next()\<close>.
  \<open>startSync_loop\<close> is that loop from an element on: \<open>kept\<close> are the values before the
  element, the list argument is its value and those after it. \<^verbatim>\<open>peers.Remove(e)\<close> clears
  the pointers of \<^verbatim>\<open>e\<close>, so the \<^verbatim>\<open>e.Next()\<close> that \<^verbatim>\<open>continue\<close> runs is nil and the loop
  is left with the entries after \<^verbatim>\<open>e\<close> unvisited. The height is the local height after
  its conversion \<^verbatim>\<open>int32(height)\<close>, and \<^verbatim>\<open><=\<close> compares two \<^verbatim>\<open>int32\<close>.
\<close>

fun startSync_loop ::
  "32 word \<Rightarrow> (peer_ref \<Rightarrow> peer) \<Rightarrow> peer_ref list \<Rightarrow> peer_ref list \<Rightarrow> peer_ref option
     \<Rightarrow> peer_ref list \<times> peer_ref option" where
  "startSync_loop height ps kept [] bestPeer = (kept, bestPeer)"
| "startSync_loop height ps kept (p # rest) bestPeer =
     (if lastBlock (ps p) \<le>s height then (kept @ rest, bestPeer)
      else startSync_loop height ps (kept @ [p]) rest (Some p))"

definition startSync :: "peer_ref list \<Rightarrow> world \<Rightarrow> peer_ref list \<times> world" where
  "startSync candidates w =
    (if syncPeer w \<noteq> None then (candidates, w)
     else case NewestSha (blockChain w) of
       None \<Rightarrow> (candidates, w\<lparr>logged := logged w @ [Error_NewestSha]\<rparr>)
     | Some (_, height) \<Rightarrow>
         (let (candidates', bestPeer) =
                startSync_loop (ucast height) (peers w) [] candidates None
          in case bestPeer of
               None \<Rightarrow> (candidates', w)
             | Some bp \<Rightarrow>
                 (case LatestBlockLocator (blockChain w) of
                    None \<Rightarrow> (candidates', w\<lparr>logged := logged w @ [Error_LatestBlockLocator]\<rparr>)
                  | Some locator \<Rightarrow>
                      (let w1 = w\<lparr>logged := logged w @ [Info_Syncing (lastBlock (peers w bp)) bp]\<rparr>;
                           w2 = PushGetBlocksMsg bp locator zeroHash w1
                       in (candidates', w2\<lparr>syncPeer := Some bp\<rparr>)))))"

definition SFNodeNetwork :: "64 word" where
  \<comment> \<open>btcwire's service flag of a full node\<close>
  "SFNodeNetwork = 1"

definition handleNewCandidateMsg :: "peer_ref list \<Rightarrow> peer_ref \<Rightarrow> world \<Rightarrow> peer_ref list \<times> world" where
  "handleNewCandidateMsg candidates p w =
    (if shutdown w then (candidates, w)
     else if and (services (peers w p)) SFNodeNetwork \<noteq> SFNodeNetwork then (candidates, w)
     else startSync (candidates @ [p]) w)"

text \<open>
  The first loop of \<^verbatim>\<open>handleDonePeerMsg\<close>: it removes the first element whose value is
  the peer and breaks.
\<close>

fun handleDonePeerMsg_loop :: "peer_ref \<Rightarrow> peer_ref list \<Rightarrow> peer_ref list" where
  "handleDonePeerMsg_loop p [] = []"
| "handleDonePeerMsg_loop p (e # rest) =
     (if e = p then rest else e # handleDonePeerMsg_loop p rest)"

definition handleDonePeerMsg :: "peer_ref list \<Rightarrow> peer_ref \<Rightarrow> world \<Rightarrow> peer_ref list \<times> world" where
  "handleDonePeerMsg candidates p w =
    (let candidates' = handleDonePeerMsg_loop p candidates
     in if syncPeer w \<noteq> None \<and> syncPeer w = Some p
        then startSync candidates' (w\<lparr>syncPeer := None\<rparr>)
        else (candidates', w))"

text \<open>
  The same two loops on the elements of a \<^verbatim>\<open>list.List\<close>, statement by statement, and the
  functions that build the list of given values, run the loop from \<^verbatim>\<open>Front()\<close> and read
  the list back. A loop on elements has the result \<open>None\<close> when it dereferences nil or
  does not end; on the lists that \<^verbatim>\<open>PushBack\<close> builds it does neither, and it returns what
  \<open>startSync_loop\<close> and \<open>handleDonePeerMsg_loop\<close> return (lemmas \<open>startSync_on_list_eq\<close>
  and \<open>handleDonePeerMsg_on_list_eq\<close>).
\<close>

partial_function (option) startSync_elements ::
  "32 word \<Rightarrow> (peer_ref \<Rightarrow> peer) \<Rightarrow> List \<Rightarrow> elem_ref option \<Rightarrow> peer_ref option
     \<Rightarrow> (List \<times> peer_ref option) option" where
  "startSync_elements height ps l e bestPeer =
     (case e of
        None \<Rightarrow> Some (l, bestPeer)
      | Some e' \<Rightarrow>
          (if lastBlock (ps (Value (cells l e'))) \<le>s height then
             (case Remove l e' of
                None \<Rightarrow> None
              | Some l' \<Rightarrow> startSync_elements height ps l' (Next l' e') bestPeer)
           else startSync_elements height ps l (Next l e') (Some (Value (cells l e')))))"

declare startSync_elements.simps [code]

definition startSync_on_list ::
  "32 word \<Rightarrow> (peer_ref \<Rightarrow> peer) \<Rightarrow> peer_ref list \<Rightarrow> (peer_ref list \<times> peer_ref option) option" where
  "startSync_on_list height ps candidates =
     (case PushBack_all New candidates of
        None \<Rightarrow> None
      | Some l \<Rightarrow>
          (case startSync_elements height ps l (Front l) None of
             None \<Rightarrow> None
           | Some (l', bestPeer) \<Rightarrow> Some (List_values l', bestPeer)))"

partial_function (option) handleDonePeerMsg_elements ::
  "peer_ref \<Rightarrow> List \<Rightarrow> elem_ref option \<Rightarrow> List option" where
  "handleDonePeerMsg_elements p l e =
     (case e of
        None \<Rightarrow> Some l
      | Some e' \<Rightarrow>
          (if Value (cells l e') = p then Remove l e'
           else handleDonePeerMsg_elements p l (Next l e')))"

declare handleDonePeerMsg_elements.simps [code]

definition handleDonePeerMsg_on_list :: "peer_ref \<Rightarrow> peer_ref list \<Rightarrow> peer_ref list option" where
  "handleDonePeerMsg_on_list p candidates =
     (case PushBack_all New candidates of
        None \<Rightarrow> None
      | Some l \<Rightarrow>
          (case handleDonePeerMsg_elements p l (Front l) of
             None \<Rightarrow> None
           | Some l' \<Rightarrow> Some (List_values l')))"

text \<open>
  The test of the loop of \<^verbatim>\<open>startSync\<close> on a peer, against the height the block store
  reports: \<^verbatim>\<open>p.lastBlock <= int32(height)\<close>.
\<close>

definition behind :: "world \<Rightarrow> peer_ref \<Rightarrow> bool" where
  "behind w p =
     (case NewestSha (blockChain w) of
        None \<Rightarrow> False
      | Some (_, height) \<Rightarrow> lastBlock (peers w p) \<le>s ucast height)"

section \<open>Start and stop\<close>

text \<open>
  \<^verbatim>\<open>close\<close> of a closed channel panics. \<^verbatim>\<open>wg.Wait()\<close> returns when the counter of the
  wait group is zero, that is when every launched task has left its loop and called
  \<^verbatim>\<open>wg.Done()\<close>: the world \<open>Stop\<close> returns is the one of that moment. \<open>Stop\<close> returns the
  Go \<^verbatim>\<open>error\<close>, \<open>None\<close> for nil.
\<close>

definition Start :: "world \<Rightarrow> world" where
  "Start w =
    (if started w then w
     else w\<lparr>logged := logged w @ [Trace_Starting],
            wg := wg w + 3,
            launched := launched w @ [go_syncHandler, go_blockHandler, go_chainNotificationHandler],
            started := True\<rparr>)"

definition Stop_signal :: "world \<Rightarrow> panic + world" where
  \<comment> \<open>\<open>Stop\<close> from the shutdown flag to \<^verbatim>\<open>close(b.quit)\<close>\<close>
  "Stop_signal w =
    (let w1 = w\<lparr>logged := logged w @ [Info_ShuttingDown], shutdown := True\<rparr>
     in if quit w1 then Inl close_of_closed_channel else Inr (w1\<lparr>quit := True\<rparr>))"

definition Stop :: "world \<Rightarrow> panic + (go_error option \<times> world)" where
  "Stop w =
    (if shutdown w then Inr (None, w\<lparr>logged := logged w @ [Warn_AlreadyShuttingDown]\<rparr>)
     else case Stop_signal w of
       Inl e \<Rightarrow> Inl e
     | Inr w2 \<Rightarrow> Inr (None, w2\<lparr>wg := 0, waits := waits w2 + 1\<rparr>))"

section \<open>The inventory reconciler\<close>

text \<open>
  The first loop of \<^verbatim>\<open>handleInvMsg\<close> runs \<^verbatim>\<open>i\<close> from \<^verbatim>\<open>len(invVects) - 1\<close> down to 0;
  the second argument of \<open>findLastBlock\<close> is \<^verbatim>\<open>i + 1\<close>.
\<close>

fun findLastBlock :: "InvVect list \<Rightarrow> nat \<Rightarrow> int" where
  "findLastBlock invVects 0 = - 1"
| "findLastBlock invVects (Suc i) =
     (if Type (invVects ! i) = InvVect_Block then int i else findLastBlock invVects i)"

definition requestQueue_PushBack :: "peer_ref \<Rightarrow> InvVect \<Rightarrow> world \<Rightarrow> world" where
  "requestQueue_PushBack p iv w =
     w\<lparr>peers := (peers w)
          (p := (peers w p)\<lparr>requestQueue := requestQueue (peers w p) @ [iv]\<rparr>)\<rparr>"

text \<open>
  The second loop, \<^verbatim>\<open>for i, iv := range invVects\<close>: \<open>handleInvMsg_entry\<close> is its body at
  index \<open>i\<close> and entry \<open>iv\<close>, \<open>handleInvMsg_scan\<close> the loop from index \<open>i\<close> on;
  \<open>lastBlockIndex\<close> is the local variable \<^verbatim>\<open>lastBlock\<close>.
\<close>

definition handleInvMsg_entry :: "int \<Rightarrow> peer_ref \<Rightarrow> nat \<Rightarrow> InvVect \<Rightarrow> world \<Rightarrow> world" where
  "handleInvMsg_entry lastBlockIndex p i iv w =
    (if Type iv = InvVect_Block then
       (let w1 = addKnownInventory p iv w
        in if \<not> HaveInventory (blockChain w1) iv then requestQueue_PushBack p iv w1
           else if IsKnownOrphan (blockChain w1) (Hash iv) then
             (let orphanRoot = GetOrphanRoot (blockChain w1) (Hash iv)
              in case LatestBlockLocator (blockChain w1) of
                   None \<Rightarrow> w1\<lparr>logged := logged w1 @ [Error_PeerLatestBlockLocator]\<rparr>
                 | Some locator \<Rightarrow> PushGetBlocksMsg p locator orphanRoot w1)
           else if int i = lastBlockIndex then
             PushGetBlocksMsg p (BlockLocatorFromHash (blockChain w1) (Hash iv)) zeroHash w1
           else w1)
     else w)"

fun handleInvMsg_scan :: "int \<Rightarrow> peer_ref \<Rightarrow> nat \<Rightarrow> InvVect list \<Rightarrow> world \<Rightarrow> world" where
  "handleInvMsg_scan lastBlockIndex p i [] w = w"
| "handleInvMsg_scan lastBlockIndex p i (iv # rest) w =
     handleInvMsg_scan lastBlockIndex p (i + 1) rest (handleInvMsg_entry lastBlockIndex p i iv w)"

text \<open>
  btcwire's \<^verbatim>\<open>MsgGetData.AddInvVect\<close> returns an error and leaves the message as it is
  when the message holds \<^verbatim>\<open>MaxInvPerMsg\<close> entries already; \<^verbatim>\<open>handleInvMsg\<close> drops what it
  returns. \<^verbatim>\<open>MaxInvPerMsg\<close> is a constant of btcwire and a parameter here.
\<close>

definition AddInvVect :: "nat \<Rightarrow> InvVect list \<Rightarrow> InvVect \<Rightarrow> InvVect list" where
  "AddInvVect MaxInvPerMsg invList iv =
     (if length invList + 1 > MaxInvPerMsg then invList else invList @ [iv])"

text \<open>
  The third loop, \<^verbatim>\<open>for e := requestQueue.Front(); e != nil; e = requestQueue.Front()\<close>:
  the arguments are \<^verbatim>\<open>numRequested\<close>, the inventory list of \<^verbatim>\<open>gdmsg\<close> and the request
  queue; the result is the inventory list and the queue when the loop is left.
\<close>

fun handleInvMsg_drain ::
  "nat \<Rightarrow> nat \<Rightarrow> InvVect list \<Rightarrow> InvVect list \<Rightarrow> InvVect list \<times> InvVect list" where
  "handleInvMsg_drain MaxInvPerMsg numRequested gdmsg [] = (gdmsg, [])"
| "handleInvMsg_drain MaxInvPerMsg numRequested gdmsg (iv # queue) =
     (let gdmsg' = AddInvVect MaxInvPerMsg gdmsg iv;
          numRequested' = numRequested + 1
      in if numRequested' \<ge> MaxInvPerMsg then (gdmsg', queue)
         else handleInvMsg_drain MaxInvPerMsg numRequested' gdmsg' queue)"

definition handleInvMsg :: "nat \<Rightarrow> invMsg \<Rightarrow> world \<Rightarrow> world" where
  "handleInvMsg MaxInvPerMsg imsg w =
    (let invVects = inv imsg;
         p = invMsg.peer imsg;
         lastBlockIndex = findLastBlock invVects (length invVects);
         w1 = handleInvMsg_scan lastBlockIndex p 0 invVects w;
         (gdmsg, queue) = handleInvMsg_drain MaxInvPerMsg 0 [] (requestQueue (peers w1 p));
         w2 = w1\<lparr>peers := (peers w1)(p := (peers w1 p)\<lparr>requestQueue := queue\<rparr>)\<rparr>
     in if length gdmsg > 0 then QueueMessage p (MsgGetData gdmsg) w2 else w2)"

text \<open>
  The messages a peer was sent between two worlds: what its outbound record has gained.
\<close>

definition sent :: "world \<Rightarrow> world \<Rightarrow> peer_ref \<Rightarrow> wire_msg list" where
  "sent w w' p = drop (length (outbound (peers w p))) (outbound (peers w' p))"

section \<open>The notification dispatcher\<close>

text \<open>
  Modelled from the spec: \<^verbatim>\<open>server.RelayInventory\<close> is not in \<^verbatim>\<open>blockmanager.go\<close>; the
  spec has it as the relay collaborator that receives the inventory vector. The call is
  recorded.
\<close>

definition RelayInventory :: "InvVect \<Rightarrow> world \<Rightarrow> world" where
  "RelayInventory iv w = w\<lparr>relayed := relayed w @ [iv]\<rparr>"

text \<open>
  \<^verbatim>\<open>notification.Data.(*btcwire.ShaHash)\<close> is a type assertion with one result: it panics
  when the data is not a hash. The assertion on a block has two results and does not.
\<close>

definition handleNotifyMsg :: "Notification \<Rightarrow> world \<Rightarrow> panic + world" where
  "handleNotifyMsg notification w =
    (case Notification.Type notification of
       NTOrphanBlock \<Rightarrow>
         (case Data notification of
            Data_ShaHash orphanHash \<Rightarrow>
              (case blockPeer w orphanHash of
                 Some peer' \<Rightarrow>
                   (let orphanRoot = GetOrphanRoot (blockChain w) orphanHash
                    in case LatestBlockLocator (blockChain w) of
                         None \<Rightarrow> Inr (w\<lparr>logged := logged w @ [Error_LatestBlockLocator]\<rparr>)
                       | Some locator \<Rightarrow>
                           (let w1 = PushGetBlocksMsg peer' locator orphanRoot w
                            in Inr (w1\<lparr>blockPeer := (blockPeer w1)(orphanRoot := None)\<rparr>)))
               | None \<Rightarrow> Inr (w\<lparr>logged := logged w @ [Warn_OrphanNoPeer orphanHash]\<rparr>))
          | _ \<Rightarrow> Inl interface_conversion)
     | NTBlockAccepted \<Rightarrow>
         (case Data notification of
            Data_Block block' \<Rightarrow>
              Inr (RelayInventory \<lparr>Type = InvVect_Block, Hash = Sha block'\<rparr> w)
          | _ \<Rightarrow> Inr (w\<lparr>logged := logged w @ [Warn_NotABlock]\<rparr>))
     | _ \<Rightarrow> Inr w)"

section \<open>Queueing and the block handler\<close>

text \<open>
  A send on a channel is recorded when it completes: \<open>QueueBlock\<close> is the call once its
  send has gone through.
\<close>

definition QueueBlock :: "Block \<Rightarrow> peer_ref \<Rightarrow> world \<Rightarrow> world" where
  "QueueBlock block' p w =
    (if shutdown w then send_blockProcessed p False w
     else w\<lparr>blockQueue := blockQueue w @ [\<lparr>block = block', peer = p\<rparr>]\<rparr>)"

definition QueueInv :: "InvVect list \<Rightarrow> peer_ref \<Rightarrow> world \<Rightarrow> world" where
  "QueueInv inv' p w =
    (if shutdown w then w
     else w\<lparr>invQueue := invQueue w @ [\<lparr>inv = inv', peer = p\<rparr>]\<rparr>)"

text \<open>
  The \<^verbatim>\<open>select\<close> of \<^verbatim>\<open>blockHandler\<close> takes one of three cases; which one, among those that
  are ready, is the choice of the Go runtime. \<open>blockHandler_select\<close> is the body of the
  loop for a given choice and a given reading of the clock: \<open>None\<close> is \<^verbatim>\<open>break out\<close>, and
  a case whose channel is not ready leaves the world as it is. \<open>blockHandler\<close> is the loop
  under a list of choices: it returns when the handler has left the loop, called
  \<^verbatim>\<open>wg.Done()\<close>, which panics on a counter at zero, and written its last line to the
  log; it is \<open>None\<close> when the handler is still waiting in the \<^verbatim>\<open>select\<close> after the last
  choice.
\<close>

datatype select_case = recv_blockQueue | recv_invQueue | recv_quit

definition wg_Done :: "world \<Rightarrow> panic + world" where
  "wg_Done w = (if wg w = 0 then Inl negative_WaitGroup_counter else Inr (w\<lparr>wg := wg w - 1\<rparr>))"

definition blockHandler_select ::
  "ProcessBlock \<Rightarrow> nat \<Rightarrow> int \<Rightarrow> select_case \<Rightarrow> world \<Rightarrow> world option" where
  "blockHandler_select processBlock MaxInvPerMsg now c w =
    (case c of
       recv_blockQueue \<Rightarrow>
         (case blockQueue w of
            [] \<Rightarrow> Some w
          | bmsg # queue \<Rightarrow>
              (let w1 = handleBlockMsg processBlock now bmsg (w\<lparr>blockQueue := queue\<rparr>)
               in Some (send_blockProcessed (blockMsg.peer bmsg) True w1)))
     | recv_invQueue \<Rightarrow>
         (case invQueue w of
            [] \<Rightarrow> Some w
          | imsg # queue \<Rightarrow> Some (handleInvMsg MaxInvPerMsg imsg (w\<lparr>invQueue := queue\<rparr>)))
     | recv_quit \<Rightarrow> (if quit w then None else Some w))"

definition blockHandler_exit :: "world \<Rightarrow> panic + world" where
  \<comment> \<open>the two statements after the loop\<close>
  "blockHandler_exit w =
    (case wg_Done w of
       Inl e \<Rightarrow> Inl e
     | Inr w1 \<Rightarrow> Inr (w1\<lparr>logged := logged w1 @ [Trace_BlockHandlerDone]\<rparr>))"

fun blockHandler ::
  "ProcessBlock \<Rightarrow> nat \<Rightarrow> (select_case \<times> int) list \<Rightarrow> world \<Rightarrow> (panic + world) option" where
  "blockHandler processBlock MaxInvPerMsg [] w =
     (if shutdown w then Some (blockHandler_exit w) else None)"
| "blockHandler processBlock MaxInvPerMsg ((c, now) # choices) w =
     (if shutdown w then Some (blockHandler_exit w)
      else case blockHandler_select processBlock MaxInvPerMsg now c w of
             None \<Rightarrow> Some (blockHandler_exit w)
           | Some w' \<Rightarrow> blockHandler processBlock MaxInvPerMsg choices w')"

section \<open>Sample values\<close>

text \<open>
  A chain engine that has nothing and knows no orphan, a peer object at height 0 with
  nothing queued, and an idle manager over them: the inputs at which the theorems below
  are instantiated.
\<close>

definition chain0 :: chain where
  "chain0 = \<lparr>HaveInventory = (\<lambda>iv. False), IsKnownOrphan = (\<lambda>h. False),
     GetOrphanRoot = (\<lambda>h. h), LatestBlockLocator = Some [0],
     BlockLocatorFromHash = (\<lambda>h. [h]), NewestSha = Some (0, 0)\<rparr>"

definition peer0 :: peer where
  "peer0 = \<lparr>lastBlock = 0, services = 1, requestQueue = [], knownInventory = [],
     outbound = [], blockProcessed = []\<rparr>"

definition world0 :: world where
  "world0 = \<lparr>started = False, shutdown = False, blockChain = chain0,
     blockPeer = Map.empty, receivedLogBlocks = 0, receivedLogTx = 0,
     lastBlockLogTime = 0, syncPeer = None, blockQueue = [], invQueue = [], wg = 0,
     quit = False, peers = (\<lambda>r. peer0), logged = [], launched = [], dbSyncs = 0,
     waits = 0, relayed = []\<rparr>"

definition reject :: ProcessBlock where
  "reject b c = (True, c)"

definition accept :: ProcessBlock where
  "accept b c = (False, c)"

definition bmsg7 :: blockMsg where
  "bmsg7 = \<lparr>block = \<lparr>Sha = 7, Transactions = [1, 2]\<rparr>, peer = 3\<rparr>"

definition world7 :: world where
  "world7 = world0\<lparr>blockPeer := [7 \<mapsto> 1], receivedLogBlocks := 4, receivedLogTx := 9\<rparr>"

text \<open>
  A heap in which the peer at reference \<open>r\<close> announces the height \<open>r\<close>, over a block
  store at height 10; the same with a chain engine that fails to build a locator; the
  same with peer 5, which the store has caught up with, as the sync peer.
\<close>

definition peersAt :: "peer_ref \<Rightarrow> peer" where
  "peersAt r = peer0\<lparr>lastBlock := of_nat r\<rparr>"

definition world10 :: world where
  "world10 = world0\<lparr>blockChain := chain0\<lparr>NewestSha := Some (0, 10)\<rparr>, peers := peersAt\<rparr>"


definition world10_sync5 :: world where
  "world10_sync5 = world10\<lparr>syncPeer := Some 5\<rparr>"

text \<open>
  Inventory vectors of blocks; peer 3 with two of them on its request queue; a chain
  engine that has every block as a known orphan with root 9, under a block-origin map
  that has peer 3 for block 7 and peer 4 for block 9; the same engine failing to build a
  locator; the same with the vector of block 7 on the request queue of peer 3; two orphan
  notifications; and a started manager with one block message queued when \<open>Stop\<close> has
  closed the quit channel.
\<close>

definition iv1 :: InvVect where
  "iv1 = \<lparr>Type = InvVect_Block, Hash = 1\<rparr>"

definition iv2 :: InvVect where
  "iv2 = \<lparr>Type = InvVect_Block, Hash = 2\<rparr>"

definition iv3 :: InvVect where
  "iv3 = \<lparr>Type = InvVect_Block, Hash = 3\<rparr>"

definition iv7 :: InvVect where
  "iv7 = \<lparr>Type = InvVect_Block, Hash = 7\<rparr>"

definition world_queued :: world where
  "world_queued = world0\<lparr>peers := (peers world0)(3 := peer0\<lparr>requestQueue := [iv1, iv2]\<rparr>)\<rparr>"

definition chain_orphan :: chain where
  "chain_orphan = chain0\<lparr>HaveInventory := (\<lambda>iv. True), IsKnownOrphan := (\<lambda>h. True),
     GetOrphanRoot := (\<lambda>h. 9)\<rparr>"

definition world_orphan :: world where
  "world_orphan = world0\<lparr>blockChain := chain_orphan, blockPeer := [7 \<mapsto> 3, 9 \<mapsto> 4]\<rparr>"

definition world_orphan_nolocator :: world where
  "world_orphan_nolocator =
     world_orphan\<lparr>blockChain := chain_orphan\<lparr>LatestBlockLocator := None\<rparr>\<rparr>"

definition world_orphan_queued :: world where
  "world_orphan_queued =
     world_orphan\<lparr>peers := (peers world_orphan)(3 := peer0\<lparr>requestQueue := [iv7]\<rparr>)\<rparr>"

definition orphan7 :: Notification where
  "orphan7 = \<lparr>Notification.Type = NTOrphanBlock, Data = Data_ShaHash 7\<rparr>"

definition orphan8 :: Notification where
  "orphan8 = \<lparr>Notification.Type = NTOrphanBlock, Data = Data_ShaHash 8\<rparr>"

definition world_stopping :: world where
  "world_stopping = (Start world0)\<lparr>blockQueue := [bmsg7],
      logged := [Trace_Starting, Info_ShuttingDown], shutdown := True, quit := True\<rparr>"

definition world_stopped :: world where
  "world_stopped = world_stopping\<lparr>wg := 2,
      logged := [Trace_Starting, Info_ShuttingDown, Trace_BlockHandlerDone]\<rparr>"

section \<open>Properties\<close>

subsection \<open>Lists of package container/list\<close>

lemma linked_append:
  "linked c a (xs @ e # ys) b = (linked c a xs e \<and> linked c e ys b)"
  by (induction xs arbitrary: a) auto

lemma linked_cong:
  "(\<forall>x\<in>insert a (set es). nxt (c' x) = nxt (c x)) \<Longrightarrow>
   (\<forall>x\<in>insert b (set es). prv (c' x) = prv (c x)) \<Longrightarrow>
   linked c' a es b = linked c a es b"
  by (induction es arbitrary: a) auto

lemma linked_prv: "linked c s pre e \<Longrightarrow> prv (c e) = Some (last (s # pre))"
  by (induction pre arbitrary: s) auto

lemma linked_nxt: "linked c e post t \<Longrightarrow> nxt (c e) = Some (hd (post @ [t]))"
  by (cases post) auto

lemma linked_unlink:
  assumes "linked c s (pre @ e # post) t" "distinct (pre @ e # post)"
    "s \<notin> set (pre @ e # post)" "t \<notin> set (pre @ e # post)"
  shows "linked (unlink c e (last (s # pre)) (hd (post @ [t]))) s (pre @ post) t"
  using assms
proof (induction pre arbitrary: s)
  case Nil
  let ?c = "unlink c e s (hd (post @ [t]))"
  from Nil.prems have e: "e \<noteq> s" "e \<noteq> t" "e \<notin> set post" "s \<notin> set post" "t \<notin> set post"
    "distinct post" and l: "linked c e post t" by auto
  show ?case
  proof (cases post)
    case Nil
    with e show ?thesis by (auto simp: unlink_def)
  next
    case (Cons n post')
    with l have l': "linked c n post' t" by simp
    have "linked ?c n post' t = linked c n post' t"
      using e Cons by (intro linked_cong) (auto simp: unlink_def)
    with l' have A: "linked ?c n post' t" by simp
    have B: "nxt (?c s) = Some n" "prv (?c n) = Some s"
      using e Cons by (auto simp: unlink_def)
    from A B Cons show ?thesis by simp
  qed
next
  case (Cons x pre')
  let ?a = "last (x # pre')" and ?n = "hd (post @ [t])"
  from Cons.prems have l: "nxt (c s) = Some x" "prv (c x) = Some s"
    "linked c x (pre' @ e # post) t" by simp_all
  from Cons.prems have d: "distinct (pre' @ e # post)" "x \<notin> set (pre' @ e # post)"
    "t \<notin> set (pre' @ e # post)" by simp_all
  from Cons.IH [OF l(3) d] have IH: "linked (unlink c e ?a ?n) x (pre' @ post) t" .
  have a: "?a \<in> set (x # pre')" by (rule last_in_set) simp
  have n: "?n \<in> insert t (set post)" by (cases post) auto
  from Cons.prems a have sa: "s \<noteq> ?a" "s \<noteq> e" by auto
  from Cons.prems n have xn: "x \<noteq> ?n" "x \<noteq> e" by auto
  have "nxt (unlink c e ?a ?n s) = Some x" "prv (unlink c e ?a ?n x) = Some s"
    using l sa xn by (simp_all add: unlink_def)
  with IH show ?case by simp
qed

lemma Remove_unlink:
  assumes "inList (cells l e)" "prv (cells l e) = Some a" "nxt (cells l e) = Some n" "a \<noteq> e" "n \<noteq> e"
  shows "Remove l e = Some (l\<lparr>cells := unlink (cells l) e a n, len := len l - 1\<rparr>)"
proof -
  have "(((cells l)(a := (cells l a)\<lparr>nxt := Some n\<rparr>))
          (n := (((cells l)(a := (cells l a)\<lparr>nxt := Some n\<rparr>)) n)\<lparr>prv := Some a\<rparr>))
          (e := ((((cells l)(a := (cells l a)\<lparr>nxt := Some n\<rparr>))
          (n := (((cells l)(a := (cells l a)\<lparr>nxt := Some n\<rparr>)) n)\<lparr>prv := Some a\<rparr>)) e)
              \<lparr>nxt := None, prv := None, inList := False\<rparr>)
        = unlink (cells l) e a n"
    using assms(4,5) by (auto simp: unlink_def fun_eq_iff)
  with assms show ?thesis by (simp add: Remove_def Let_def)
qed

lemma ring_Remove:
  assumes "ring l (pre @ e # post)"
  shows "\<exists>l'. Remove l e = Some l' \<and> ring l' (pre @ post)
           \<and> vals l' (pre @ post) = vals l (pre @ post) \<and> \<not> inList (cells l' e)"
proof -
  let ?a = "last (0 # pre)" and ?n = "hd (post @ [0])"
  let ?l = "l\<lparr>cells := unlink (cells l) e ?a ?n, len := len l - 1\<rparr>"
  from assms have L: "linked (cells l) 0 (pre @ e # post) 0" and d: "distinct (pre @ e # post)"
    and z: "0 \<notin> set (pre @ e # post)"
    and i: "list_all (\<lambda>e. inList (cells l e) \<and> e < unused l) (pre @ e # post)"
    and u: "0 < unused l" and n: "len l = int (length (pre @ e # post))"
    by (simp_all add: ring_def)
  from L have p: "prv (cells l e) = Some ?a" and x: "nxt (cells l e) = Some ?n"
    using linked_prv linked_nxt by (simp_all add: linked_append)
  have a: "?a \<in> insert 0 (set pre)" using last_in_set [of "0 # pre"] by simp
  have nn: "?n \<in> insert 0 (set post)" by (cases post) auto
  from a nn d z have ne: "?a \<noteq> e" "?n \<noteq> e" by auto
  from i have "inList (cells l e)" by simp
  from Remove_unlink [OF this p x ne] have R: "Remove l e = Some ?l" .
  have "linked (cells ?l) 0 (pre @ post) 0" using linked_unlink [OF L d z z] by simp
  moreover have "list_all (\<lambda>e. inList (cells ?l e) \<and> e < unused ?l) (pre @ post)"
    using i d by (auto simp: list_all_iff unlink_def)
  moreover have "vals ?l (pre @ post) = vals l (pre @ post)"
    using d by (auto simp: vals_def unlink_def)
  moreover have "\<not> inList (cells ?l e)" by (simp add: unlink_def)
  ultimately show ?thesis using R d z u n by (auto simp: ring_def)
qed

lemma ring_Next:
  assumes "ring l (pre @ e # post)"
  shows "Next l e = (case post of [] \<Rightarrow> None | n # _ \<Rightarrow> Some n)"
proof -
  from assms have L: "linked (cells l) 0 (pre @ e # post) 0" and z: "0 \<notin> set post"
    and i: "inList (cells l e)" by (simp_all add: ring_def)
  from L have "nxt (cells l e) = Some (hd (post @ [0]))"
    using linked_nxt by (simp add: linked_append)
  with z i show ?thesis by (cases post) (auto simp: Next_def)
qed

lemma ring_Front:
  assumes "ring l es"
  shows "Front l = (case es of [] \<Rightarrow> None | e # _ \<Rightarrow> Some e)"
  using assms by (cases es) (auto simp: ring_def Front_def)

lemma startSync_elements_loop:
  assumes "ring l (kept @ rest)"
  shows "\<exists>l' es'. startSync_elements h ps l (case rest of [] \<Rightarrow> None | e # _ \<Rightarrow> Some e) best
                     = Some (l', snd (startSync_loop h ps (vals l kept) (vals l rest) best))
           \<and> ring l' es'
           \<and> vals l' es' = fst (startSync_loop h ps (vals l kept) (vals l rest) best)"
  using assms
proof (induction rest arbitrary: kept best)
  case Nil
  then show ?case by (auto simp: startSync_elements.simps vals_def)
next
  case (Cons e rest)
  show ?case
  proof (cases "lastBlock (ps (Value (cells l e))) \<le>s h")
    case True
    from ring_Remove [OF Cons.prems] obtain l' where
      R: "Remove l e = Some l'" and r: "ring l' (kept @ rest)"
      and v: "vals l' (kept @ rest) = vals l (kept @ rest)" and n: "\<not> inList (cells l' e)"
      by blast
    from n have "Next l' e = None" by (simp add: Next_def)
    with R True have "startSync_elements h ps l (Some e) best = Some (l', best)"
      by (simp add: startSync_elements.simps)
    with True r v show ?thesis by (auto simp: vals_def)
  next
    case False
    from Cons.prems have r: "ring l ((kept @ [e]) @ rest)" by simp
    from ring_Next [OF Cons.prems]
    have N: "Next l e = (case rest of [] \<Rightarrow> None | n # _ \<Rightarrow> Some n)" .
    from Cons.IH [OF r, of "Some (Value (cells l e))"] N False
    show ?thesis by (simp add: startSync_elements.simps [of h ps l "Some e"] vals_def)
  qed
qed

lemma startSync_elements_refines:
  assumes "ring l es"
  shows "\<exists>l' es'. startSync_elements h ps l (Front l) None
                     = Some (l', snd (startSync_loop h ps [] (vals l es) None))
           \<and> ring l' es'
           \<and> vals l' es' = fst (startSync_loop h ps [] (vals l es) None)"
  using startSync_elements_loop [of l "[]" es h ps None] assms
  by (simp add: ring_Front vals_def)

lemma linked_link:
  assumes "linked c s es t" "distinct es" "e \<notin> set es" "e \<noteq> s" "e \<noteq> t" "t \<notin> set es"
    "s \<notin> set es"
  shows "linked (link c e (last (s # es)) t v) s (es @ [e]) t"
  using assms
proof (induction es arbitrary: s)
  case Nil
  then show ?case by (auto simp: link_def)
next
  case (Cons x es)
  let ?a = "last (x # es)"
  from Cons.prems have l: "nxt (c s) = Some x" "prv (c x) = Some s" "linked c x es t"
    by simp_all
  from Cons.prems have p: "distinct es" "e \<notin> set es" "e \<noteq> x" "e \<noteq> t" "t \<notin> set es"
    "x \<notin> set es" by simp_all
  from Cons.IH [OF l(3) p] have IH: "linked (link c e ?a t v) x (es @ [e]) t" .
  have a: "?a \<in> set (x # es)" by (rule last_in_set) simp
  from Cons.prems a have sa: "s \<noteq> ?a" "s \<noteq> e" by auto
  from Cons.prems have xt: "x \<noteq> t" "x \<noteq> e" by auto
  have "nxt (link c e ?a t v s) = Some x" "prv (link c e ?a t v x) = Some s"
    using l sa xt by (simp_all add: link_def)
  with IH show ?case by simp
qed

lemma linked_last: "linked c s es t \<Longrightarrow> nxt (c (last (s # es))) = Some t"
  by (induction es arbitrary: s) auto

lemma PushBack_link:
  assumes "prv (cells l 0) = Some a" "nxt (cells l a) = Some 0" "unused l \<noteq> a" "unused l \<noteq> 0"
  shows "PushBack l v = Some (l\<lparr>cells := link (cells l) (unused l) a 0 v, len := len l + 1,
           unused := unused l + 1\<rparr>)"
proof -
  let ?e = "unused l"
  let ?c1 = "(cells l)(?e := \<lparr>nxt = nxt (cells l a), prv = Some a, inList = False, Value = v\<rparr>)"
  let ?c2 = "?c1(a := (?c1 a)\<lparr>nxt := Some ?e\<rparr>)"
  let ?c3 = "?c2(0 := (?c2 0)\<lparr>prv := Some ?e\<rparr>)"
  have n: "nxt (?c2 ?e) = Some 0" using assms by simp
  have "?c3(?e := (?c3 ?e)\<lparr>inList := True\<rparr>) = link (cells l) ?e a 0 v"
    using assms by (auto simp: link_def fun_eq_iff)
  with assms n show ?thesis by (simp add: PushBack_def Let_def)
qed

lemma ring_New: "ring New []"
  by (simp add: ring_def New_def)

lemma ring_PushBack:
  assumes "ring l es"
  shows "\<exists>l'. PushBack l v = Some l' \<and> ring l' (es @ [unused l])
           \<and> vals l' (es @ [unused l]) = vals l es @ [v]"
proof -
  let ?e = "unused l" and ?a = "last (0 # es)"
  let ?l = "l\<lparr>cells := link (cells l) ?e ?a 0 v, len := len l + 1, unused := unused l + 1\<rparr>"
  from assms have L: "linked (cells l) 0 es 0" and d: "distinct es" and z: "0 \<notin> set es"
    and i: "list_all (\<lambda>e. inList (cells l e) \<and> e < unused l) es"
    and u: "0 < unused l" and n: "len l = int (length es)"
    by (simp_all add: ring_def)
  from i have f: "?e \<notin> set es" by (auto simp: list_all_iff)
  have a: "?a \<in> insert 0 (set es)" using last_in_set [of "0 # es"] by simp
  with f u have ea: "?e \<noteq> ?a" "?e \<noteq> 0" by auto
  from linked_prv [OF L] have p: "prv (cells l 0) = Some ?a" .
  from linked_last [OF L] have x: "nxt (cells l ?a) = Some 0" .
  from PushBack_link [OF p x ea] have P: "PushBack l v = Some ?l" .
  have "linked (cells ?l) 0 (es @ [?e]) 0"
    using linked_link [OF L d f ea(2) ea(2) z z] by simp
  moreover have "list_all (\<lambda>e. inList (cells ?l e) \<and> e < unused ?l) (es @ [?e])"
    using i f by (auto simp: list_all_iff link_def)
  moreover have "vals ?l (es @ [?e]) = vals l es @ [v]"
    using f by (auto simp: vals_def link_def)
  ultimately show ?thesis using P d z u n f by (auto simp: ring_def)
qed

lemma ring_walk:
  assumes "ring l (pre @ rest)"
  shows "List_walk (length rest) l (case rest of [] \<Rightarrow> None | e # _ \<Rightarrow> Some e) = vals l rest"
  using assms
proof (induction rest arbitrary: pre)
  case Nil
  then show ?case by (simp add: vals_def)
next
  case (Cons e rest)
  from Cons.prems have r: "ring l ((pre @ [e]) @ rest)" by simp
  from Cons.IH [OF r] ring_Next [OF Cons.prems] show ?case by (simp add: vals_def)
qed

lemma ring_values:
  assumes "ring l es"
  shows "List_values l = vals l es"
proof -
  from assms have "nat (len l) = length es" by (simp add: ring_def)
  with ring_walk [of l "[]" es] ring_Front [OF assms] assms show ?thesis
    by (simp add: List_values_def)
qed

lemma ring_PushBack_all:
  assumes "ring l es"
  shows "\<exists>l' es'. PushBack_all l vs = Some l' \<and> ring l' es' \<and> vals l' es' = vals l es @ vs"
  using assms
proof (induction vs arbitrary: l es)
  case Nil
  then show ?case by auto
next
  case (Cons v vs)
  from ring_PushBack [OF Cons.prems, of v] obtain l1 where
    1: "PushBack l v = Some l1" "ring l1 (es @ [unused l])"
       "vals l1 (es @ [unused l]) = vals l es @ [v]" by blast
  from Cons.IH [OF 1(2)] obtain l' es' where
    "PushBack_all l1 vs = Some l'" "ring l' es'" "vals l' es' = vals l1 (es @ [unused l]) @ vs"
    by blast
  with 1 show ?case by auto
qed

subsection \<open>The loops of the sync coordinator\<close>





lemma startSync_loop_count:
  "\<not> lastBlock (ps p) \<le>s h \<Longrightarrow>
     count_list (fst (startSync_loop h ps kept xs best)) p = count_list (kept @ xs) p"
  by (induction xs arbitrary: kept best) auto

lemma handleDonePeerMsg_loop_remove1: "handleDonePeerMsg_loop p xs = remove1 p xs"
  by (induction xs) auto

lemma count_list_remove1: "count_list (remove1 p cs) p = count_list cs p - 1"
  by (induction cs) auto

lemma startSync_count:
  "\<not> behind w p \<Longrightarrow> count_list (fst (startSync cs w)) p = count_list cs p"
proof (cases "syncPeer w \<noteq> None \<or> NewestSha (blockChain w) = None")
  case True
  then show ?thesis by (auto simp: startSync_def)
next
  case False
  then obtain h height where N: "NewestSha (blockChain w) = Some (h, height)" by auto
  assume "\<not> behind w p"
  with N have "\<not> lastBlock (peers w p) \<le>s ucast height" by (simp add: behind_def)
  with startSync_loop_count [where ps = "peers w" and p = p and h = "ucast height"
      and kept = "[]" and xs = cs and best = None] False N show ?thesis
    by (auto simp: startSync_def split: prod.splits option.splits)
qed

lemma startSync_behind: "behind (snd (startSync cs w)) p = behind w p"
  by (simp add: startSync_def behind_def PushGetBlocksMsg_def split: prod.splits option.splits)

lemma startSync_shutdown: "shutdown (snd (startSync cs w)) = shutdown w"
  by (simp add: startSync_def PushGetBlocksMsg_def split: prod.splits option.splits)

lemma startSync_services: "services (peers (snd (startSync cs w)) p) = services (peers w p)"
  by (simp add: startSync_def PushGetBlocksMsg_def split: prod.splits option.splits)

lemma handleNewCandidateMsg_count:
  assumes "\<not> shutdown w" "and (services (peers w p)) SFNodeNetwork = SFNodeNetwork"
    "syncPeer w \<noteq> None \<or> \<not> behind w p"
  shows "count_list (fst (handleNewCandidateMsg cs p w)) p = count_list cs p + 1"
    and "\<not> shutdown (snd (handleNewCandidateMsg cs p w))"
    and "and (services (peers (snd (handleNewCandidateMsg cs p w)) p)) SFNodeNetwork = SFNodeNetwork"
    and "syncPeer (snd (handleNewCandidateMsg cs p w)) \<noteq> None
         \<or> \<not> behind (snd (handleNewCandidateMsg cs p w)) p"
proof -
  show "count_list (fst (handleNewCandidateMsg cs p w)) p = count_list cs p + 1"
  proof (cases "syncPeer w \<noteq> None")
    case True
    with assms show ?thesis by (simp add: handleNewCandidateMsg_def startSync_def)
  next
    case False
    with assms show ?thesis by (simp add: handleNewCandidateMsg_def startSync_count)
  qed
  show "\<not> shutdown (snd (handleNewCandidateMsg cs p w))"
    using assms by (simp add: handleNewCandidateMsg_def startSync_shutdown)
  show "and (services (peers (snd (handleNewCandidateMsg cs p w)) p)) SFNodeNetwork = SFNodeNetwork"
    using assms by (simp add: handleNewCandidateMsg_def startSync_services)
  show "syncPeer (snd (handleNewCandidateMsg cs p w)) \<noteq> None
         \<or> \<not> behind (snd (handleNewCandidateMsg cs p w)) p"
  proof (cases "syncPeer w \<noteq> None")
    case True
    with assms show ?thesis by (simp add: handleNewCandidateMsg_def startSync_def)
  next
    case False
    with assms show ?thesis by (simp add: handleNewCandidateMsg_def startSync_behind)
  qed
qed

text \<open>
  The loops on list values are the loops on list elements: for every list of values,
  building the \<^verbatim>\<open>list.List\<close> with \<^verbatim>\<open>PushBack\<close>, running the loop of the code on its
  elements and reading the list from \<^verbatim>\<open>Front()\<close> with \<^verbatim>\<open>Next()\<close> gives what the loop on
  the values gives.
\<close>

lemma startSync_on_list_eq:
  "startSync_on_list height ps candidates = Some (startSync_loop height ps [] candidates None)"
proof -
  from ring_PushBack_all [OF ring_New, of candidates] obtain l es where
    l: "PushBack_all New candidates = Some l" "ring l es" "vals l es = candidates"
    by (auto simp: vals_def)
  from startSync_elements_refines [OF l(2), of height ps] l(3) obtain l' es' where
    r: "startSync_elements height ps l (Front l) None
          = Some (l', snd (startSync_loop height ps [] candidates None))"
       "ring l' es'" "vals l' es' = fst (startSync_loop height ps [] candidates None)"
    by auto
  from ring_values [OF r(2)] r(3) l(1) r(1) show ?thesis
    by (simp add: startSync_on_list_def)
qed

lemma handleDonePeerMsg_elements_loop:
  assumes "ring l (kept @ rest)"
  shows "\<exists>l' es'. handleDonePeerMsg_elements p l (case rest of [] \<Rightarrow> None | e # _ \<Rightarrow> Some e)
                     = Some l'
           \<and> ring l' es'
           \<and> vals l' es' = vals l kept @ handleDonePeerMsg_loop p (vals l rest)"
  using assms
proof (induction rest arbitrary: kept)
  case Nil
  then show ?case by (auto simp: handleDonePeerMsg_elements.simps vals_def)
next
  case (Cons e rest)
  show ?case
  proof (cases "Value (cells l e) = p")
    case True
    from ring_Remove [OF Cons.prems] obtain l' where
      "Remove l e = Some l'" "ring l' (kept @ rest)"
      "vals l' (kept @ rest) = vals l (kept @ rest)" by blast
    with True show ?thesis by (auto simp: handleDonePeerMsg_elements.simps vals_def)
  next
    case False
    from Cons.prems have r: "ring l ((kept @ [e]) @ rest)" by simp
    from Cons.IH [OF r] ring_Next [OF Cons.prems] False
    show ?thesis by (simp add: handleDonePeerMsg_elements.simps [of p l "Some e"] vals_def)
  qed
qed

lemma handleDonePeerMsg_on_list_eq:
  "handleDonePeerMsg_on_list p candidates = Some (handleDonePeerMsg_loop p candidates)"
proof -
  from ring_PushBack_all [OF ring_New, of candidates] obtain l es where
    l: "PushBack_all New candidates = Some l" "ring l es" "vals l es = candidates"
    by (auto simp: vals_def)
  from handleDonePeerMsg_elements_loop [of l "[]" es p] l(2,3) ring_Front [OF l(2)]
  obtain l' es' where
    r: "handleDonePeerMsg_elements p l (Front l) = Some l'" "ring l' es'"
       "vals l' es' = handleDonePeerMsg_loop p candidates"
    by (auto simp: vals_def)
  from ring_values [OF r(2)] r(3) l(1) r(1) show ?thesis
    by (simp add: handleDonePeerMsg_on_list_def)
qed

subsection \<open>Selection of the sync peer\<close>




text \<open>
  C2 at the candidates 5 and 7 over a local height of 10: both announce a height at or
  below the local one, the pass removes peer 5 only and peer 7 stays in the list; so it
  is on the values of the list and on the elements of the \<^verbatim>\<open>list.List\<close>.
\<close>

theorem startSync_prunes_first_only:
  "behind world10 5 \<and> behind world10 7
   \<and> fst (startSync [5, 7] world10) = [7]
   \<and> syncPeer (snd (startSync [5, 7] world10)) = None
   \<and> startSync_on_list 10 peersAt [5, 7] = Some ([7], None)"
  by (simp add: startSync_def startSync_on_list_eq world10_def world0_def chain0_def
        peersAt_def peer0_def behind_def)

text \<open>
  C3 at the candidates 20 and 30 over a local height of 10: both stay in the list, and
  the sync peer recorded is peer 30, the last of them, not peer 20, the first; so it is
  on the values of the list and on the elements of the \<^verbatim>\<open>list.List\<close>.
\<close>

theorem startSync_picks_last:
  "\<not> behind world10 20 \<and> \<not> behind world10 30
   \<and> fst (startSync [20, 30] world10) = [20, 30]
   \<and> syncPeer (snd (startSync [20, 30] world10)) = Some 30
   \<and> startSync_on_list 10 peersAt [20, 30] = Some ([20, 30], Some 30)"
  by (simp add: startSync_def startSync_on_list_eq world10_def world0_def chain0_def
        peersAt_def peer0_def behind_def PushGetBlocksMsg_def)

subsection \<open>Candidates signalled twice\<close>

text \<open>
  C10, as the code has it. \<open>handleDonePeerMsg\<close> removes the first entry equal to the peer
  and no other by its own loop: when the peer is not the sync peer that is all it does,
  and when it is, the sync peer is cleared and \<open>startSync\<close> runs on the rest.
  \<open>handleNewCandidateMsg\<close> does nothing when the manager is shutting down or the peer is
  not a full node; otherwise it appends the peer without a look at the entries and runs
  \<open>startSync\<close> on the list: a full node signalled twice while the manager is not shutting
  down has two more entries than before, when
  a sync peer is active or the node is above the local height. A done signal takes
  exactly one entry of the peer away when the peer is not the sync peer or is above the
  local height.
\<close>

theorem candidate_twice_done_once:
  "(shutdown w \<or> and (services (peers w p)) SFNodeNetwork \<noteq> SFNodeNetwork \<longrightarrow>
      handleNewCandidateMsg cs p w = (cs, w))
   \<and> (\<not> shutdown w \<and> and (services (peers w p)) SFNodeNetwork = SFNodeNetwork \<longrightarrow>
      handleNewCandidateMsg cs p w = startSync (cs @ [p]) w)
   \<and> (syncPeer w \<noteq> Some p \<longrightarrow> handleDonePeerMsg cs p w = (remove1 p cs, w))
   \<and> (syncPeer w = Some p \<longrightarrow>
        handleDonePeerMsg cs p w = startSync (remove1 p cs) (w\<lparr>syncPeer := None\<rparr>))
   \<and> (\<not> shutdown w \<and> and (services (peers w p)) SFNodeNetwork = SFNodeNetwork
        \<and> (syncPeer w \<noteq> None \<or> \<not> behind w p) \<longrightarrow>
        (let (cs1, w1) = handleNewCandidateMsg cs p w;
             (cs2, w2) = handleNewCandidateMsg cs1 p w1
         in count_list cs2 p = count_list cs p + 2))
   \<and> (syncPeer w \<noteq> Some p \<or> \<not> behind w p \<longrightarrow>
        count_list (fst (handleDonePeerMsg cs p w)) p = count_list cs p - 1)"
proof (intro conjI impI)
  assume "shutdown w \<or> and (services (peers w p)) SFNodeNetwork \<noteq> SFNodeNetwork"
  then show "handleNewCandidateMsg cs p w = (cs, w)"
    by (auto simp: handleNewCandidateMsg_def)
next
  assume "\<not> shutdown w \<and> and (services (peers w p)) SFNodeNetwork = SFNodeNetwork"
  then show "handleNewCandidateMsg cs p w = startSync (cs @ [p]) w"
    by (simp add: handleNewCandidateMsg_def)
next
  assume "syncPeer w \<noteq> Some p"
  then show "handleDonePeerMsg cs p w = (remove1 p cs, w)"
    by (simp add: handleDonePeerMsg_def handleDonePeerMsg_loop_remove1)
next
  assume "syncPeer w = Some p"
  then show "handleDonePeerMsg cs p w = startSync (remove1 p cs) (w\<lparr>syncPeer := None\<rparr>)"
    by (simp add: handleDonePeerMsg_def handleDonePeerMsg_loop_remove1)
next
  assume A: "\<not> shutdown w \<and> and (services (peers w p)) SFNodeNetwork = SFNodeNetwork
        \<and> (syncPeer w \<noteq> None \<or> \<not> behind w p)"
  obtain cs1 w1 where 1: "handleNewCandidateMsg cs p w = (cs1, w1)"
    by (cases "handleNewCandidateMsg cs p w")
  obtain cs2 w2 where 2: "handleNewCandidateMsg cs1 p w1 = (cs2, w2)"
    by (cases "handleNewCandidateMsg cs1 p w1")
  from A have a: "\<not> shutdown w" "and (services (peers w p)) SFNodeNetwork = SFNodeNetwork"
    "syncPeer w \<noteq> None \<or> \<not> behind w p" by simp_all
  from handleNewCandidateMsg_count [OF a, of cs] 1
  have c1: "count_list cs1 p = count_list cs p + 1" and b: "\<not> shutdown w1"
    "and (services (peers w1 p)) SFNodeNetwork = SFNodeNetwork"
    "syncPeer w1 \<noteq> None \<or> \<not> behind w1 p"
    by simp_all
  from handleNewCandidateMsg_count(1) [OF b, of cs1] 2
  have "count_list cs2 p = count_list cs1 p + 1" by simp
  with c1 1 2 show "let (cs1, w1) = handleNewCandidateMsg cs p w;
             (cs2, w2) = handleNewCandidateMsg cs1 p w1
         in count_list cs2 p = count_list cs p + 2" by simp
next
  assume A: "syncPeer w \<noteq> Some p \<or> \<not> behind w p"
  have nb: "behind (w\<lparr>syncPeer := None\<rparr>) p = behind w p"
    by (simp add: behind_def split: option.splits)
  show "count_list (fst (handleDonePeerMsg cs p w)) p = count_list cs p - 1"
  proof (cases "syncPeer w = Some p")
    case True
    with A have "\<not> behind (w\<lparr>syncPeer := None\<rparr>) p" by (simp add: nb)
    from startSync_count [OF this] True show ?thesis
      by (simp add: handleDonePeerMsg_def handleDonePeerMsg_loop_remove1 count_list_remove1)
  next
    case False
    then show ?thesis
      by (simp add: handleDonePeerMsg_def handleDonePeerMsg_loop_remove1 count_list_remove1)
  qed
qed

theorem candidate_twice_done_once_witness:
  "\<not> shutdown world10 \<and> and (services (peers world10 20)) SFNodeNetwork = SFNodeNetwork
   \<and> \<not> behind world10 20
   \<and> fst (handleNewCandidateMsg [] 20 world10) = [20]
   \<and> syncPeer (snd (handleNewCandidateMsg [] 20 world10)) = Some 20
   \<and> outbound (peers (snd (handleNewCandidateMsg [] 20 world10)) 20)
        = [MsgGetBlocks [0] zeroHash]
   \<and> handleNewCandidateMsg [7] 20 (world10\<lparr>syncPeer := Some 7\<rparr>)
        = ([7, 20], world10\<lparr>syncPeer := Some 7\<rparr>)
   \<and> handleNewCandidateMsg [7] 20 (world10\<lparr>shutdown := True\<rparr>)
        = ([7], world10\<lparr>shutdown := True\<rparr>)
   \<and> fst (handleNewCandidateMsg (fst (handleNewCandidateMsg [] 20 world10)) 20
            (snd (handleNewCandidateMsg [] 20 world10))) = [20, 20]
   \<and> syncPeer world10 \<noteq> Some 20
   \<and> handleDonePeerMsg [20, 7, 20] 20 world10 = ([7, 20], world10)
   \<and> count_list (fst (handleDonePeerMsg [20, 20] 20 (world10\<lparr>syncPeer := Some 20\<rparr>))) 20 = 1"
  using candidate_twice_done_once [where w = world10 and p = 20 and cs = "[]"]
    candidate_twice_done_once [where w = "world10\<lparr>syncPeer := Some 7\<rparr>" and p = 20
      and cs = "[7]"]
    candidate_twice_done_once [where w = "world10\<lparr>shutdown := True\<rparr>" and p = 20
      and cs = "[7]"]
    candidate_twice_done_once [where w = world10 and p = 20 and cs = "[20, 7, 20]"]
    candidate_twice_done_once [where w = "world10\<lparr>syncPeer := Some 20\<rparr>" and p = 20
      and cs = "[20, 20]"]
  by (simp add: handleNewCandidateMsg_def handleDonePeerMsg_def startSync_def behind_def
        PushGetBlocksMsg_def SFNodeNetwork_def world10_def world0_def chain0_def
        peersAt_def peer0_def)

text \<open>
  C10 as stated fails in two places. Peer 5 is the sync peer and twice in the list, and
  the local height has reached 10: one done signal removes both entries, the second by
  the \<open>startSync\<close> it triggers. And peer 5 signalled twice as a candidate, with no sync
  peer active, is in no entry afterwards: each call appends it and \<open>startSync\<close> prunes it.
\<close>

theorem done_signal_removes_both:
  "syncPeer world10_sync5 = Some 5
   \<and> fst (handleDonePeerMsg [5, 5] 5 world10_sync5) = []
   \<and> \<not> shutdown world10 \<and> and (services (peers world10 5)) SFNodeNetwork = SFNodeNetwork
   \<and> fst (handleNewCandidateMsg (fst (handleNewCandidateMsg [] 5 world10)) 5
            (snd (handleNewCandidateMsg [] 5 world10))) = []"
  by (simp add: handleDonePeerMsg_def handleNewCandidateMsg_def startSync_def
        world10_sync5_def world10_def world0_def chain0_def peersAt_def peer0_def
        SFNodeNetwork_def)

subsection \<open>Start and stop\<close>

text \<open>
  C8. \<open>Start\<close> on a started manager returns the world it was given: nothing is launched
  and nothing changes; so a second \<open>Start\<close> changes nothing. \<open>Stop\<close> on a manager whose
  shutdown has begun returns nil with the world unchanged but for the warning in the
  log: the quit channel is not closed again and the wait group is not waited on; so a
  \<open>Stop\<close> after a \<open>Stop\<close> that returned does only that.
\<close>

theorem Start_Stop_idempotent:
  "(started w \<longrightarrow> Start w = w)
   \<and> Start (Start w) = Start w
   \<and> (shutdown w \<longrightarrow> Stop w = Inr (None, w\<lparr>logged := logged w @ [Warn_AlreadyShuttingDown]\<rparr>))
   \<and> (Stop w = Inr (r, w') \<longrightarrow>
        Stop w' = Inr (None, w'\<lparr>logged := logged w' @ [Warn_AlreadyShuttingDown]\<rparr>))"
  by (auto simp: Start_def Stop_def Stop_signal_def Let_def split: if_splits)

theorem Start_Stop_idempotent_witness:
  "started (Start world0) \<and> Start (Start world0) = Start world0
   \<and> launched (Start (Start world0)) = [go_syncHandler, go_blockHandler, go_chainNotificationHandler]
   \<and> shutdown (world0\<lparr>shutdown := True, quit := True, waits := 1\<rparr>)
   \<and> Stop (world0\<lparr>shutdown := True, quit := True, waits := 1\<rparr>)
       = Inr (None, world0\<lparr>shutdown := True, quit := True, waits := 1,
                logged := [Warn_AlreadyShuttingDown]\<rparr>)"
  using Start_Stop_idempotent [where w = "Start world0"]
    Start_Stop_idempotent [where w = "world0\<lparr>shutdown := True, quit := True, waits := 1\<rparr>"]
  by (simp add: Start_def Stop_def world0_def)

subsection \<open>Rejected blocks\<close>

text \<open>
  C7. When \<^verbatim>\<open>ProcessBlock\<close> returns an error for the block of a message,
  \<open>handleBlockMsg\<close> leaves the block-origin map without an entry for the hash of that
  block, and the progress counters \<open>receivedLogBlocks\<close> and \<open>receivedLogTx\<close> (and the
  time of the last progress line) are what they were before the call.
\<close>

theorem handleBlockMsg_rejected:
  assumes "fst (processBlock (block bmsg) (blockChain w))"
  shows "blockPeer (handleBlockMsg processBlock now bmsg w) (Sha (block bmsg)) = None
       \<and> receivedLogBlocks (handleBlockMsg processBlock now bmsg w) = receivedLogBlocks w
       \<and> receivedLogTx (handleBlockMsg processBlock now bmsg w) = receivedLogTx w
       \<and> lastBlockLogTime (handleBlockMsg processBlock now bmsg w) = lastBlockLogTime w"
proof (cases "processBlock (block bmsg) (blockChain w)")
  case (Pair err c)
  with assms have "err" by simp
  with Pair show ?thesis by (simp add: handleBlockMsg_def Let_def)
qed

theorem handleBlockMsg_rejected_witness:
  "fst (reject (block bmsg7) (blockChain world7))
   \<and> blockPeer world7 7 = Some 1
   \<and> blockPeer (handleBlockMsg reject 5 bmsg7 world7) (Sha (block bmsg7)) = None
   \<and> receivedLogBlocks (handleBlockMsg reject 5 bmsg7 world7) = 4
   \<and> receivedLogTx (handleBlockMsg reject 5 bmsg7 world7) = 9"
proof -
  have h: "fst (reject (block bmsg7) (blockChain world7))"
    by (simp add: reject_def)
  show ?thesis
    using h handleBlockMsg_rejected
      [where processBlock = reject and bmsg = bmsg7 and w = world7 and now = 5]
    by (simp add: world7_def)
qed

subsection \<open>The loops of the inventory reconciler\<close>

lemma handleInvMsg_drain_eq:
  "0 < M \<Longrightarrow> length gd = n \<Longrightarrow> n < M \<Longrightarrow>
     handleInvMsg_drain M n gd q = (gd @ take (M - n) q, drop (M - n) q)"
proof (induction q arbitrary: n gd)
  case Nil
  then show ?case by simp
next
  case (Cons iv q)
  have A: "AddInvVect M gd iv = gd @ [iv]" using Cons.prems by (simp add: AddInvVect_def)
  have S: "M - n = Suc (M - Suc n)" using Cons.prems by simp
  show ?case
  proof (cases "Suc n \<ge> M")
    case True
    with Cons.prems have "M - n = 1" by simp
    with True A show ?thesis by (simp add: Let_def)
  next
    case False
    then have "Suc n < M" by simp
    from Cons.IH [OF Cons.prems(1) _ this, of "gd @ [iv]"] Cons.prems(2)
    have "handleInvMsg_drain M (Suc n) (gd @ [iv]) q
            = ((gd @ [iv]) @ take (M - Suc n) q, drop (M - Suc n) q)" by simp
    with False A S show ?thesis by (simp add: Let_def)
  qed
qed

lemmas entry_defs = handleInvMsg_entry_def Let_def addKnownInventory_def
  requestQueue_PushBack_def PushGetBlocksMsg_def

lemma entry_blockChain: "blockChain (handleInvMsg_entry lb p i iv w) = blockChain w"
  by (simp add: entry_defs split: option.splits)

lemma scan_blockChain: "blockChain (handleInvMsg_scan lb p i ivs w) = blockChain w"
  by (induction ivs arbitrary: i w) (simp_all add: entry_blockChain)

lemma entry_requestQueue:
  "requestQueue (peers (handleInvMsg_entry lb p i iv w) p) =
     requestQueue (peers w p) @
       (if Type iv = InvVect_Block \<and> \<not> HaveInventory (blockChain w) iv then [iv] else [])"
  by (simp add: entry_defs split: option.splits)

lemma scan_requestQueue:
  "requestQueue (peers (handleInvMsg_scan lb p i ivs w) p) =
     requestQueue (peers w p) @
       filter (\<lambda>iv. Type iv = InvVect_Block \<and> \<not> HaveInventory (blockChain w) iv) ivs"
  by (induction ivs arbitrary: i w) (simp_all add: entry_requestQueue entry_blockChain)

lemma entry_getdata:
  "filter is_MsgGetData (outbound (peers (handleInvMsg_entry lb p i iv w) q)) =
     filter is_MsgGetData (outbound (peers w q))"
  by (simp add: entry_defs split: option.splits)

lemma scan_getdata:
  "filter is_MsgGetData (outbound (peers (handleInvMsg_scan lb p i ivs w) q)) =
     filter is_MsgGetData (outbound (peers w q))"
  by (induction ivs arbitrary: i w) (simp_all add: entry_getdata)

lemma entry_outbound:
  "\<exists>ms. outbound (peers (handleInvMsg_entry lb p i iv w) p) = outbound (peers w p) @ ms"
  by (simp add: entry_defs split: option.splits)

lemma scan_outbound:
  "\<exists>ms. outbound (peers (handleInvMsg_scan lb p i ivs w) p) = outbound (peers w p) @ ms"
proof (induction ivs arbitrary: i w)
  case Nil
  then show ?case by simp
next
  case (Cons iv rest)
  obtain ms1 where 1: "outbound (peers (handleInvMsg_entry lb p i iv w) p) = outbound (peers w p) @ ms1"
    using entry_outbound by blast
  obtain ms2 where 2: "outbound (peers (handleInvMsg_scan lb p (i + 1) rest (handleInvMsg_entry lb p i iv w)) p)
      = outbound (peers (handleInvMsg_entry lb p i iv w) p) @ ms2"
    using Cons.IH by blast
  from 1 2 show ?case by simp
qed

lemma entry_logged: "\<exists>ls. logged (handleInvMsg_entry lb p i iv w) = logged w @ ls"
  by (simp add: entry_defs split: option.splits)

lemma scan_logged: "\<exists>ls. logged (handleInvMsg_scan lb p i ivs w) = logged w @ ls"
proof (induction ivs arbitrary: i w)
  case Nil
  then show ?case by simp
next
  case (Cons iv rest)
  obtain l1 where 1: "logged (handleInvMsg_entry lb p i iv w) = logged w @ l1"
    using entry_logged by blast
  obtain l2 where 2: "logged (handleInvMsg_scan lb p (i + 1) rest (handleInvMsg_entry lb p i iv w))
      = logged (handleInvMsg_entry lb p i iv w) @ l2"
    using Cons.IH by blast
  from 1 2 show ?case by simp
qed

lemma scan_orphan:
  assumes "iv \<in> set ivs" "Type iv = InvVect_Block" "HaveInventory (blockChain w) iv"
    "IsKnownOrphan (blockChain w) (Hash iv)"
  shows "case LatestBlockLocator (blockChain w) of
           Some locator \<Rightarrow>
             MsgGetBlocks locator (GetOrphanRoot (blockChain w) (Hash iv))
               \<in> set (sent w (handleInvMsg_scan lb p i ivs w) p)
         | None \<Rightarrow> Error_PeerLatestBlockLocator
               \<in> set (drop (length (logged w)) (logged (handleInvMsg_scan lb p i ivs w)))"
  using assms
proof (induction ivs arbitrary: i w)
  case Nil
  then show ?case by simp
next
  case (Cons x rest)
  let ?w1 = "handleInvMsg_entry lb p i x w"
  let ?w2 = "handleInvMsg_scan lb p (i + 1) rest ?w1"
  obtain ms1 where 1: "outbound (peers ?w1 p) = outbound (peers w p) @ ms1"
    using entry_outbound by blast
  obtain ms2 where 2: "outbound (peers ?w2 p) = outbound (peers ?w1 p) @ ms2"
    using scan_outbound by blast
  obtain l1 where 3: "logged ?w1 = logged w @ l1" using entry_logged by blast
  obtain l2 where 4: "logged ?w2 = logged ?w1 @ l2" using scan_logged by blast
  have S: "sent w ?w2 p = ms1 @ ms2" "sent ?w1 ?w2 p = ms2" "sent w ?w1 p = ms1"
    using 1 2 by (simp_all add: sent_def)
  have D: "drop (length (logged w)) (logged ?w2) = l1 @ l2"
    "drop (length (logged ?w1)) (logged ?w2) = l2" "drop (length (logged w)) (logged ?w1) = l1"
    using 3 4 by simp_all
  show ?case
  proof (cases "iv = x")
    case True
    have "case LatestBlockLocator (blockChain w) of
           Some locator \<Rightarrow> MsgGetBlocks locator (GetOrphanRoot (blockChain w) (Hash iv)) \<in> set (sent w ?w1 p)
         | None \<Rightarrow> Error_PeerLatestBlockLocator \<in> set (drop (length (logged w)) (logged ?w1))"
      using True Cons.prems by (simp add: entry_defs sent_def split: option.splits)
    then show ?thesis using S D by (auto split: option.splits)
  next
    case False
    with Cons.prems have "iv \<in> set rest" by simp
    from Cons.IH [OF this, of ?w1 "i + 1"] Cons.prems
    show ?thesis using S D by (auto simp: entry_blockChain split: option.splits)
  qed
qed

lemma entry_sent_chain:
  "blockChain w1 = blockChain w \<Longrightarrow>
     sent w1 (handleInvMsg_entry lb p j x w1) p = sent w (handleInvMsg_entry lb p j x w) p"
  by (simp add: entry_defs sent_def split: option.splits)

lemma entry_outbound_sent:
  "outbound (peers (handleInvMsg_entry lb p i iv w) p) =
     outbound (peers w p) @ sent w (handleInvMsg_entry lb p i iv w) p"
  by (simp add: entry_defs sent_def split: option.splits)

lemma scan_outbound_entries:
  "outbound (peers (handleInvMsg_scan lb p i ivs w) p) =
     outbound (peers w p) @
       concat (map (\<lambda>(j, x). sent w (handleInvMsg_entry lb p j x w) p)
                 (zip [i..<i + length ivs] ivs))"
proof (induction ivs arbitrary: i w)
  case Nil
  then show ?case by simp
next
  case (Cons x rest)
  let ?w1 = "handleInvMsg_entry lb p i x w"
  have c: "blockChain ?w1 = blockChain w" by (rule entry_blockChain)
  have f: "(\<lambda>(j, y). sent ?w1 (handleInvMsg_entry lb p j y ?w1) p)
             = (\<lambda>(j, y). sent w (handleInvMsg_entry lb p j y w) p)"
    by (simp add: fun_eq_iff entry_sent_chain [OF c])
  have z: "zip [i..<i + length (x # rest)] (x # rest)
             = (i, x) # zip [Suc i..<Suc i + length rest] rest"
  proof -
    have "[i..<i + length (x # rest)] = i # [Suc i..<Suc i + length rest]"
      by (subst upt_rec) simp
    then show ?thesis by (simp only: zip_Cons_Cons)
  qed
  from Cons.IH [of "Suc i" ?w1] show ?case
    by (simp only: handleInvMsg_scan.simps z f entry_outbound_sent) simp
qed

lemma AddInvVect_subset: "set (AddInvVect M gd iv) \<subseteq> insert iv (set gd)"
  by (auto simp: AddInvVect_def)

lemma drain_subset:
  "set (fst (handleInvMsg_drain M n gd q)) \<subseteq> set gd \<union> set q
   \<and> set (snd (handleInvMsg_drain M n gd q)) \<subseteq> set q"
proof (induction q arbitrary: n gd)
  case Nil
  then show ?case by simp
next
  case (Cons iv q)
  from Cons.IH [of "n + 1" "AddInvVect M gd iv"] AddInvVect_subset [of M gd iv]
  show ?case by (auto simp: Let_def)
qed

lemma handleInvMsg_parts:
  assumes "p = invMsg.peer imsg"
    and "w1 = handleInvMsg_scan (findLastBlock (inv imsg) (length (inv imsg))) p 0 (inv imsg) w"
    and "d = handleInvMsg_drain M 0 [] (requestQueue (peers w1 p))"
  shows "outbound (peers (handleInvMsg M imsg w) p) =
           outbound (peers w1 p) @ (if fst d = [] then [] else [MsgGetData (fst d)])"
    and "requestQueue (peers (handleInvMsg M imsg w) p) = snd d"
    and "logged (handleInvMsg M imsg w) = logged w1"
  using assms
  by (simp_all add: handleInvMsg_def Let_def QueueMessage_def split: prod.splits)

lemma sent_append:
  "outbound (peers w1 p) = outbound (peers w p) @ ms \<Longrightarrow>
   outbound (peers w' p) = outbound (peers w1 p) @ ms' \<Longrightarrow>
   sent w w' p = sent w w1 p @ ms' \<and> sent w w1 p = ms"
  by (simp add: sent_def)

lemmas sample_defs = orphan7_def orphan8_def world0_def chain0_def peer0_def world_queued_def chain_orphan_def
  world_orphan_def world_orphan_nolocator_def world_orphan_queued_def iv1_def iv2_def iv3_def
  iv7_def InvVect_Block_def

lemmas handleInvMsg_defs = handleInvMsg_def handleInvMsg_entry_def Let_def addKnownInventory_def
  requestQueue_PushBack_def PushGetBlocksMsg_def QueueMessage_def AddInvVect_def sent_def

subsection \<open>The fetch-data message\<close>

text \<open>
  C5. Let \<^verbatim>\<open>MaxInvPerMsg\<close> be positive, and let the pending entries be the request queue
  of the peer as it was, followed by the block entries of the inv message that the chain
  engine does not have. After \<open>handleInvMsg\<close> the request queue holds the pending entries
  beyond the first \<^verbatim>\<open>MaxInvPerMsg\<close>, in their order; the get-data messages sent to the peer
  by the call are a single one with the first \<^verbatim>\<open>MaxInvPerMsg\<close> pending entries when there
  is a pending entry, and none when there is not; and that message has at most
  \<^verbatim>\<open>MaxInvPerMsg\<close> entries.
\<close>

theorem handleInvMsg_drain_capped:
  assumes "0 < MaxInvPerMsg"
  shows "let p = invMsg.peer imsg;
             pending = requestQueue (peers w p) @
               filter (\<lambda>iv. Type iv = InvVect_Block \<and> \<not> HaveInventory (blockChain w) iv) (inv imsg);
             w' = handleInvMsg MaxInvPerMsg imsg w
         in requestQueue (peers w' p) = drop MaxInvPerMsg pending
          \<and> filter is_MsgGetData (sent w w' p) =
              (if pending = [] then [] else [MsgGetData (take MaxInvPerMsg pending)])
          \<and> length (take MaxInvPerMsg pending) \<le> MaxInvPerMsg"
proof -
  let ?p = "invMsg.peer imsg"
  let ?pending = "requestQueue (peers w ?p) @
     filter (\<lambda>iv. Type iv = InvVect_Block \<and> \<not> HaveInventory (blockChain w) iv) (inv imsg)"
  let ?w' = "handleInvMsg MaxInvPerMsg imsg w"
  define w1 where
    "w1 = handleInvMsg_scan (findLastBlock (inv imsg) (length (inv imsg))) ?p 0 (inv imsg) w"
  define d where "d = handleInvMsg_drain MaxInvPerMsg 0 [] (requestQueue (peers w1 ?p))"
  have Q: "requestQueue (peers w1 ?p) = ?pending"
    by (simp add: w1_def scan_requestQueue)
  have d: "d = (take MaxInvPerMsg ?pending, drop MaxInvPerMsg ?pending)"
    using handleInvMsg_drain_eq [OF assms, of "[]" 0 ?pending] assms
    by (simp only: d_def Q) simp
  note P = handleInvMsg_parts [OF refl w1_def d_def]
  obtain ms where ms: "outbound (peers w1 ?p) = outbound (peers w ?p) @ ms"
    unfolding w1_def using scan_outbound by blast
  have "filter is_MsgGetData (outbound (peers w1 ?p)) = filter is_MsgGetData (outbound (peers w ?p))"
    by (simp add: w1_def scan_getdata)
  with ms have nogd: "filter is_MsgGetData ms = []" by simp
  have S: "sent w ?w' ?p = ms @ (if fst d = [] then [] else [MsgGetData (fst d)])"
    using sent_append [OF ms P(1)] by simp
  have E: "(take MaxInvPerMsg ?pending = []) = (?pending = [])"
    using assms by (cases ?pending) auto
  have 1: "requestQueue (peers ?w' ?p) = drop MaxInvPerMsg ?pending"
    using P(2) d by (simp only: snd_conv)
  have 2: "filter is_MsgGetData (sent w ?w' ?p) =
      (if ?pending = [] then [] else [MsgGetData (take MaxInvPerMsg ?pending)])"
    unfolding S d fst_conv using nogd E by (simp only: filter_append) simp
  have 3: "length (take MaxInvPerMsg ?pending) \<le> MaxInvPerMsg" by simp
  from 1 2 3 show ?thesis unfolding Let_def by blast
qed

theorem handleInvMsg_drain_capped_witness:
  "(0::nat) < 2
   \<and> requestQueue (peers (handleInvMsg 2 \<lparr>inv = [iv3], peer = 3\<rparr> world_queued) 3) = [iv3]
   \<and> filter is_MsgGetData
        (sent world_queued (handleInvMsg 2 \<lparr>inv = [iv3], peer = 3\<rparr> world_queued) 3)
       = [MsgGetData [iv1, iv2]]
   \<and> requestQueue (peers (handleInvMsg 2 \<lparr>inv = [], peer = 3\<rparr> world0) 3) = []
   \<and> sent world0 (handleInvMsg 2 \<lparr>inv = [], peer = 3\<rparr> world0) 3 = []"
  using handleInvMsg_drain_capped [where MaxInvPerMsg = 2 and imsg = "\<lparr>inv = [iv3], peer = 3\<rparr>"
      and w = world_queued]
    handleInvMsg_drain_capped [where MaxInvPerMsg = 2 and imsg = "\<lparr>inv = [], peer = 3\<rparr>"
      and w = world0]
  by (simp add: handleInvMsg_defs sample_defs)

subsection \<open>Known orphans in an inv message\<close>

text \<open>
  C4, as the code has it. Let an entry of the inv message be of block type, in the
  chain engine and a known orphan. If it is not on the request queue of the peer before
  the call, it is not on it afterwards and in no get-data message the call sends. If the
  latest block locator is obtained, a get-blocks request from that locator to the root
  of the orphan is among the messages the call sends to the peer; if it is not, the call
  logs the error for the entry.
\<close>

theorem handleInvMsg_known_orphan:
  assumes "iv \<in> set (inv imsg)" "Type iv = InvVect_Block" "HaveInventory (blockChain w) iv"
    "IsKnownOrphan (blockChain w) (Hash iv)"
  shows "let p = invMsg.peer imsg; w' = handleInvMsg MaxInvPerMsg imsg w;
             lastBlockIndex = findLastBlock (inv imsg) (length (inv imsg));
             orphanRoot = GetOrphanRoot (blockChain w) (Hash iv)
         in (iv \<notin> set (requestQueue (peers w p)) \<longrightarrow>
               iv \<notin> set (requestQueue (peers w' p))
               \<and> (\<forall>gd. MsgGetData gd \<in> set (sent w w' p) \<longrightarrow> iv \<notin> set gd))
          \<and> handleInvMsg_entry lb p i iv w =
              (case LatestBlockLocator (blockChain w) of
                 Some locator \<Rightarrow> PushGetBlocksMsg p locator orphanRoot (addKnownInventory p iv w)
               | None \<Rightarrow>
                   (addKnownInventory p iv w)
                     \<lparr>logged := logged w @ [Error_PeerLatestBlockLocator]\<rparr>)
          \<and> sent w (handleInvMsg_entry lb p i iv w) p =
              (case LatestBlockLocator (blockChain w) of
                 Some locator \<Rightarrow> [MsgGetBlocks locator orphanRoot]
               | None \<Rightarrow> [])
          \<and> filter is_MsgGetBlocks (sent w w' p) =
              concat (map (\<lambda>(j, x). sent w (handleInvMsg_entry lastBlockIndex p j x w) p)
                        (zip [0..<length (inv imsg)] (inv imsg)))
          \<and> (case LatestBlockLocator (blockChain w) of
                Some locator \<Rightarrow> MsgGetBlocks locator orphanRoot \<in> set (sent w w' p)
              | None \<Rightarrow>
                  Error_PeerLatestBlockLocator \<in> set (drop (length (logged w)) (logged w')))"
proof -
  define p where "p = invMsg.peer imsg"
  define lbi where "lbi = findLastBlock (inv imsg) (length (inv imsg))"
  define w1 where "w1 = handleInvMsg_scan lbi p 0 (inv imsg) w"
  define d where "d = handleInvMsg_drain MaxInvPerMsg 0 [] (requestQueue (peers w1 p))"
  define w' where "w' = handleInvMsg MaxInvPerMsg imsg w"
  define es where "es = concat (map (\<lambda>(j, x). sent w (handleInvMsg_entry lbi p j x w) p)
                        (zip [0..<length (inv imsg)] (inv imsg)))"
  note P = handleInvMsg_parts [OF p_def w1_def [unfolded lbi_def] d_def, folded w'_def]
  have ms: "outbound (peers w1 p) = outbound (peers w p) @ es"
    unfolding w1_def es_def using scan_outbound_entries [of lbi p 0 "inv imsg" w] by simp
  have "filter is_MsgGetData (outbound (peers w1 p)) = filter is_MsgGetData (outbound (peers w p))"
    by (simp add: w1_def scan_getdata)
  with ms have nogd: "filter is_MsgGetData es = []" by simp
  then have allgb: "filter is_MsgGetBlocks es = es"
    by (induction es) (auto split: if_splits intro: wire_msg.exhaust_disc)
  have S: "sent w w' p = es @ (if fst d = [] then [] else [MsgGetData (fst d)])"
    and S1: "sent w w1 p = es"
    using sent_append [OF ms P(1)] by simp_all
  have Q: "requestQueue (peers w1 p) = requestQueue (peers w p) @
     filter (\<lambda>iv. Type iv = InvVect_Block \<and> \<not> HaveInventory (blockChain w) iv) (inv imsg)"
    by (simp add: w1_def scan_requestQueue)
  have sub: "set (fst d) \<subseteq> set (requestQueue (peers w1 p))"
    "set (snd d) \<subseteq> set (requestQueue (peers w1 p))"
    using drain_subset [of MaxInvPerMsg 0 "[]" "requestQueue (peers w1 p)"] by (simp_all add: d_def)
  have A: "iv \<notin> set (requestQueue (peers w' p))
           \<and> (\<forall>gd. MsgGetData gd \<in> set (sent w w' p) \<longrightarrow> iv \<notin> set gd)"
    if n: "iv \<notin> set (requestQueue (peers w p))"
  proof -
    from n assms(3) Q have nq: "iv \<notin> set (requestQueue (peers w1 p))" by simp
    with sub P(2) have 1: "iv \<notin> set (requestQueue (peers w' p))" by auto
    have 2: "iv \<notin> set gd" if g: "MsgGetData gd \<in> set (sent w w' p)" for gd
    proof -
      from nogd have "MsgGetData gd \<notin> set es"
        by (metis filter_empty_conv wire_msg.disc(4))
      with g S have "gd = fst d" by (auto split: if_splits)
      with sub nq show ?thesis by auto
    qed
    from 1 2 show ?thesis by blast
  qed
  have B: "case LatestBlockLocator (blockChain w) of
                Some locator \<Rightarrow>
                  MsgGetBlocks locator (GetOrphanRoot (blockChain w) (Hash iv)) \<in> set (sent w w' p)
              | None \<Rightarrow>
                  Error_PeerLatestBlockLocator \<in> set (drop (length (logged w)) (logged w'))"
    using scan_orphan [OF assms, of lbi p 0] S S1 P(3)
    by (auto simp: w1_def [symmetric] split: option.splits)
  have E: "handleInvMsg_entry lb p i iv w =
              (case LatestBlockLocator (blockChain w) of
                 Some locator \<Rightarrow>
                   PushGetBlocksMsg p locator (GetOrphanRoot (blockChain w) (Hash iv))
                     (addKnownInventory p iv w)
               | None \<Rightarrow>
                   (addKnownInventory p iv w)
                     \<lparr>logged := logged w @ [Error_PeerLatestBlockLocator]\<rparr>)"
    using assms(2-4)
    by (simp add: handleInvMsg_entry_def Let_def addKnownInventory_def split: option.splits)
  have F: "sent w (handleInvMsg_entry lb p i iv w) p =
              (case LatestBlockLocator (blockChain w) of
                 Some locator \<Rightarrow> [MsgGetBlocks locator (GetOrphanRoot (blockChain w) (Hash iv))]
               | None \<Rightarrow> [])"
    using assms(2-4) by (simp add: entry_defs sent_def split: option.splits)
  have G: "filter is_MsgGetBlocks (sent w w' p) = es"
    using S allgb by simp
  from A B E F G show ?thesis
    unfolding Let_def p_def [symmetric] w'_def [symmetric] lbi_def [symmetric] es_def [symmetric]
    by blast
qed

theorem handleInvMsg_known_orphan_witness:
  "iv7 \<in> set (inv \<lparr>inv = [iv7], peer = 3\<rparr>) \<and> Type iv7 = InvVect_Block
   \<and> HaveInventory (blockChain world_orphan) iv7 \<and> IsKnownOrphan (blockChain world_orphan) (Hash iv7)
   \<and> iv7 \<notin> set (requestQueue (peers world_orphan 3))
   \<and> sent world_orphan (handleInvMsg 2 \<lparr>inv = [iv7], peer = 3\<rparr> world_orphan) 3
        = [MsgGetBlocks [0] 9]
   \<and> requestQueue (peers (handleInvMsg 2 \<lparr>inv = [iv7], peer = 3\<rparr> world_orphan) 3) = []
   \<and> HaveInventory (blockChain world_orphan_nolocator) iv7
   \<and> IsKnownOrphan (blockChain world_orphan_nolocator) (Hash iv7)
   \<and> sent world_orphan_nolocator (handleInvMsg_entry 0 3 0 iv7 world_orphan_nolocator) 3 = []
   \<and> sent world_orphan_nolocator
        (handleInvMsg 2 \<lparr>inv = [iv7], peer = 3\<rparr> world_orphan_nolocator) 3 = []
   \<and> logged (handleInvMsg 2 \<lparr>inv = [iv7], peer = 3\<rparr> world_orphan_nolocator)
        = [Error_PeerLatestBlockLocator]"
  using handleInvMsg_known_orphan [where MaxInvPerMsg = 2 and imsg = "\<lparr>inv = [iv7], peer = 3\<rparr>"
      and w = world_orphan and iv = iv7 and lb = 0 and i = 0]
    handleInvMsg_known_orphan [where MaxInvPerMsg = 2 and imsg = "\<lparr>inv = [iv7], peer = 3\<rparr>"
      and w = world_orphan_nolocator and iv = iv7 and lb = 0 and i = 0]
  by (simp add: handleInvMsg_defs sample_defs)

text \<open>
  C4 as stated fails in two places. Where the latest block locator cannot be obtained,
  the entry of block 7, which the engine has as a known orphan, gets no get-blocks
  request: nothing is sent to the peer. And where that entry is on the request queue
  from before, the get-data message of the call holds it.
\<close>

theorem handleInvMsg_orphan_no_locator:
  "Type iv7 = InvVect_Block
   \<and> HaveInventory (blockChain world_orphan_nolocator) iv7
   \<and> IsKnownOrphan (blockChain world_orphan_nolocator) (Hash iv7)
   \<and> outbound (peers (handleInvMsg 2 \<lparr>inv = [iv7], peer = 3\<rparr> world_orphan_nolocator) 3) = []
   \<and> HaveInventory (blockChain world_orphan_queued) iv7
   \<and> IsKnownOrphan (blockChain world_orphan_queued) (Hash iv7)
   \<and> outbound (peers (handleInvMsg 2 \<lparr>inv = [iv7], peer = 3\<rparr> world_orphan_queued) 3)
        = [MsgGetBlocks [0] 9, MsgGetData [iv7]]"
  by (simp add: handleInvMsg_defs sample_defs)

subsection \<open>Orphan notifications\<close>

text \<open>
  C6, as the code has it. For a notification of an orphan block with its hash: if the
  block-origin map has a peer for the hash and the latest block locator is obtained,
  \<open>handleNotifyMsg\<close> pushes that peer a get-blocks request from the locator to the root of
  the orphan and deletes the entry of the map keyed by the root; if the map has a peer
  and the locator is not obtained, it logs the error, sends nothing and leaves the map
  as it is; if the map has no peer for the hash, it logs the warning and sends nothing.
\<close>

theorem handleNotifyMsg_orphan:
  assumes "Notification.Type n = NTOrphanBlock" and "Data n = Data_ShaHash orphanHash"
  shows "case blockPeer w orphanHash of
           Some p \<Rightarrow>
             (case LatestBlockLocator (blockChain w) of
                Some locator \<Rightarrow>
                  handleNotifyMsg n w =
                    Inr ((PushGetBlocksMsg p locator (GetOrphanRoot (blockChain w) orphanHash) w)
                          \<lparr>blockPeer :=
                             (blockPeer w)(GetOrphanRoot (blockChain w) orphanHash := None)\<rparr>)
              | None \<Rightarrow>
                  handleNotifyMsg n w = Inr (w\<lparr>logged := logged w @ [Error_LatestBlockLocator]\<rparr>))
         | None \<Rightarrow>
             handleNotifyMsg n w = Inr (w\<lparr>logged := logged w @ [Warn_OrphanNoPeer orphanHash]\<rparr>)"
  using assms
  by (simp add: handleNotifyMsg_def Let_def PushGetBlocksMsg_def split: option.splits)

theorem handleNotifyMsg_orphan_witness:
  "Notification.Type orphan7 = NTOrphanBlock
   \<and> Data orphan7 = Data_ShaHash 7
   \<and> handleNotifyMsg orphan7 world_orphan
       = Inr (world_orphan\<lparr>peers := (peers world_orphan)
                (3 := peer0\<lparr>outbound := [MsgGetBlocks [0] 9]\<rparr>), blockPeer := [7 \<mapsto> 3]\<rparr>)
   \<and> handleNotifyMsg orphan8 world_orphan
       = Inr (world_orphan\<lparr>logged := [Warn_OrphanNoPeer 8]\<rparr>)"
  using handleNotifyMsg_orphan [where n = "orphan7"
      and orphanHash = 7 and w = world_orphan]
    handleNotifyMsg_orphan [where n = "orphan8"
      and orphanHash = 8 and w = world_orphan]
  by (simp add: PushGetBlocksMsg_def sample_defs fun_upd_twist)

text \<open>
  C6 as stated fails where the latest block locator cannot be obtained: the map has
  peer 3 for the orphan 7, whose root is 9, yet nothing is sent to peer 3 and the entry
  of the map keyed by 9 is still there; only the error is logged.
\<close>

theorem handleNotifyMsg_no_locator:
  "blockPeer world_orphan_nolocator 7 = Some 3
   \<and> handleNotifyMsg orphan7 world_orphan_nolocator
       = Inr (world_orphan_nolocator\<lparr>logged := [Error_LatestBlockLocator]\<rparr>)
   \<and> outbound (peers world_orphan_nolocator 3) = []
   \<and> GetOrphanRoot (blockChain world_orphan_nolocator) 7 = 9
   \<and> blockPeer world_orphan_nolocator 9 = Some 4"
  by (simp add: handleNotifyMsg_def sample_defs)

subsection \<open>Signals on the channel of the source peer\<close>

lemma handleBlockMsg_peers: "peers (handleBlockMsg pb now bmsg w) = peers w"
  by (simp add: handleBlockMsg_def logBlockHeight_def Let_def split: prod.splits option.splits)

lemma handleBlockMsg_blockQueue: "blockQueue (handleBlockMsg pb now bmsg w) = blockQueue w"
  by (simp add: handleBlockMsg_def logBlockHeight_def Let_def split: prod.splits option.splits)

text \<open>
  The signals away from the end of the handler. \<open>QueueBlock\<close> on a manager whose
  shutdown has begun leaves the block queue as it is and sends one \<open>False\<close> to the
  source peer; on a manager whose shutdown has not begun it appends the block message to
  the queue and does nothing else. When the block handler takes a message from the block
  queue, it runs \<open>handleBlockMsg\<close> on it and then sends one \<open>True\<close> to the peer of the
  message, whatever \<^verbatim>\<open>ProcessBlock\<close> returned.
\<close>

lemma QueueBlock_signal:
  "(shutdown w \<longrightarrow>
      blockQueue (QueueBlock b p w) = blockQueue w
      \<and> blockProcessed (peers (QueueBlock b p w) p) = blockProcessed (peers w p) @ [False])
   \<and> (\<not> shutdown w \<longrightarrow>
      QueueBlock b p w = w\<lparr>blockQueue := blockQueue w @ [\<lparr>block = b, peer = p\<rparr>]\<rparr>)
   \<and> (blockQueue w = bmsg # queue \<longrightarrow>
      blockHandler_select processBlock M now recv_blockQueue w =
        Some (send_blockProcessed (blockMsg.peer bmsg) True
               (handleBlockMsg processBlock now bmsg (w\<lparr>blockQueue := queue\<rparr>)))
      \<and> blockQueue (the (blockHandler_select processBlock M now recv_blockQueue w)) = queue
      \<and> blockProcessed (peers (the (blockHandler_select processBlock M now recv_blockQueue w))
           (blockMsg.peer bmsg)) = blockProcessed (peers w (blockMsg.peer bmsg)) @ [True]
      \<and> (\<not> shutdown w \<longrightarrow>
           blockHandler processBlock M ((recv_blockQueue, now) # choices) w =
             blockHandler processBlock M choices
               (send_blockProcessed (blockMsg.peer bmsg) True
                 (handleBlockMsg processBlock now bmsg (w\<lparr>blockQueue := queue\<rparr>)))))"
  by (simp add: QueueBlock_def send_blockProcessed_def blockHandler_select_def Let_def
        handleBlockMsg_peers handleBlockMsg_blockQueue)

text \<open>
  A block queued on a running manager just before \<open>Stop\<close>: whatever the choices of the
  \<^verbatim>\<open>select\<close>, the block handler leaves its loop at its next test of the shutdown flag;
  the message is still in the queue, and no peer has been sent anything.
\<close>

lemma QueueBlock_before_Stop:
  assumes "\<not> shutdown w" and "\<not> quit w" and "0 < wg w"
  shows "\<exists>w2 w3. Stop_signal (QueueBlock b p w) = Inr w2
           \<and> blockHandler processBlock M choices w2 = Some (Inr w3)
           \<and> blockQueue w3 = blockQueue w @ [\<lparr>block = b, peer = p\<rparr>]
           \<and> peers w3 = peers w"
proof -
  let ?w2 = "(QueueBlock b p w)\<lparr>logged := logged w @ [Info_ShuttingDown], shutdown := True,
                quit := True\<rparr>"
  have 1: "Stop_signal (QueueBlock b p w) = Inr ?w2"
    using assms by (simp add: Stop_signal_def QueueBlock_def Let_def)
  have 2: "blockHandler processBlock M choices ?w2 = Some (blockHandler_exit ?w2)"
    by (cases choices) auto
  have 3: "blockHandler_exit ?w2 =
             Inr (?w2\<lparr>wg := wg w - 1,
                   logged := logged w @ [Info_ShuttingDown, Trace_BlockHandlerDone]\<rparr>)"
    using assms by (simp add: blockHandler_exit_def wg_Done_def QueueBlock_def)
  from 1 2 3 assms(1) show ?thesis by (simp add: QueueBlock_def)
qed

text \<open>
  C9 at a block queued on the started manager just before \<open>Stop\<close>: \<open>QueueBlock\<close> queues the
  message for peer 3 and sends nothing, \<open>Stop\<close> sets the flag and closes the quit channel,
  and the block handler leaves its loop at the next test of the flag, with the message
  in the queue and no signal sent to peer 3, neither \<open>True\<close> nor the \<open>False\<close> that
  \<open>QueueBlock\<close> sends when it is called once shutdown has begun.
\<close>

theorem QueueBlock_then_shutdown:
  "\<not> shutdown (Start world0)
   \<and> Stop_signal (QueueBlock (block bmsg7) 3 (Start world0)) = Inr world_stopping
   \<and> blockHandler accept 2 [(recv_blockQueue, 5)] world_stopping = Some (Inr world_stopped)
   \<and> blockQueue world_stopped = [bmsg7]
   \<and> blockProcessed (peers world_stopped 3) = []
   \<and> shutdown world_stopping
   \<and> blockProcessed (peers (QueueBlock (block bmsg7) 3 world_stopping) 3) = [False]"
  by (simp add: Stop_signal_def QueueBlock_def send_blockProcessed_def wg_Done_def
        blockHandler_exit_def world_stopping_def world_stopped_def Start_def world0_def
        bmsg7_def peer0_def)

end
